theory Spec2Isabelle
  imports Complex_Main "HOL-Library.Signed_Division"
begin

unbundle bit_operations_syntax

chapter \<open>The embedding of makesample.c\<close>

section \<open>Numbers\<close>

text \<open>
  The C type \<^verbatim>\<open>double\<close> is embedded as \<^typ>\<open>real\<close>. The grid generator, the
  tridiagonal solver and the spline interpolation take the rounding of a result as a
  parameter \<open>R\<close>, applied after every arithmetic operation on doubles and to every
  conversion to \<^verbatim>\<open>double\<close>. With \<open>R = (\<lambda>x. x)\<close> the arithmetic is exact. With
  \<open>R = binary64\<close> every operation is rounded to the nearest number with 53 significant
  bits, ties to the even significand, as IEEE 754 arithmetic in double precision does
  when expressions are evaluated in double precision and not fused. Overflow, division
  by zero, the subnormal range and NaN are not modelled: a theorem with a rounding
  speaks of the runs in which every operation gives a finite number that is not
  subnormal. The values that a function receives are taken as they are. In the Simpson integration and in the saving and restoring of a
  sampling every operation is the exact one, and the theorems about them say nothing
  about rounding.

  The C types \<^verbatim>\<open>long\<close> and \<^verbatim>\<open>int\<close> are embedded as \<^typ>\<open>int\<close> without a
  width (signed overflow and the conversion of a \<^verbatim>\<open>double\<close> outside the range of
  \<^verbatim>\<open>long\<close> are undefined in C and are not modelled). Diagnostic output
  (\<^verbatim>\<open>transitprint\<close>, warnings) changes no state and is left out.
\<close>

type_synonym rounding = "real \<Rightarrow> real"

definition round_even :: "real \<Rightarrow> int" where
  "round_even x =
     (let f = \<lfloor>x\<rfloor>; r = x - real_of_int f
      in if r < 1 / 2 then f else if 1 / 2 < r then f + 1 else if even f then f else f + 1)"

text \<open>
  The binary exponent of a number \<open>x\<close> other than 0: the \<open>p\<close> with
  \<open>2\<^sup>p \<le> \<bar>x\<bar> < 2\<^sup>p\<^sup>+\<^sup>1\<close>, found by halving or doubling.
\<close>

function bexp :: "real \<Rightarrow> int" where
  "bexp x = (if x = 0 then 0
             else if 2 \<le> \<bar>x\<bar> then bexp (x / 2) + 1
             else if \<bar>x\<bar> < 1 then bexp (x * 2) - 1
             else 0)"
  by pat_completeness auto
termination
proof (relation "measure (\<lambda>x. if 1 \<le> \<bar>x\<bar> \<and> \<bar>x\<bar> < 2 then 0 else 1 + nat \<lceil>\<bar>log 2 \<bar>x\<bar>\<bar>\<rceil>)")
  show "wf (measure (\<lambda>x. if 1 \<le> \<bar>x\<bar> \<and> \<bar>x\<bar> < 2 then 0 else 1 + nat \<lceil>\<bar>log 2 \<bar>x\<bar>\<bar>\<rceil>))"
    by simp
next
  fix x :: real
  assume x: "x \<noteq> 0" and big: "2 \<le> \<bar>x\<bar>"
  have l: "log 2 \<bar>x / 2\<bar> = log 2 \<bar>x\<bar> - 1"
    using x by (simp add: log_divide)
  have "1 \<le> log 2 \<bar>x\<bar>"
    using big by (simp add: le_log_iff)
  then have "nat \<lceil>\<bar>log 2 \<bar>x\<bar> - 1\<bar>\<rceil> < nat \<lceil>\<bar>log 2 \<bar>x\<bar>\<bar>\<rceil>"
    by (simp add: abs_if)
  with big show "(x / 2, x) \<in> measure (\<lambda>x. if 1 \<le> \<bar>x\<bar> \<and> \<bar>x\<bar> < 2 then 0 else 1 + nat \<lceil>\<bar>log 2 \<bar>x\<bar>\<bar>\<rceil>)"
    unfolding in_measure l [symmetric] by (simp del: abs_divide)
next
  fix x :: real
  assume x: "x \<noteq> 0" and small: "\<not> 2 \<le> \<bar>x\<bar>" "\<bar>x\<bar> < 1"
  have l: "log 2 \<bar>x * 2\<bar> = log 2 \<bar>x\<bar> + 1"
  proof -
    have "log 2 (\<bar>x\<bar> * 2) = log 2 \<bar>x\<bar> + log 2 2"
      using x by (simp add: log_mult)
    then show ?thesis by (simp add: abs_mult)
  qed
  show "(x * 2, x) \<in> measure (\<lambda>x. if 1 \<le> \<bar>x\<bar> \<and> \<bar>x\<bar> < 2 then 0 else 1 + nat \<lceil>\<bar>log 2 \<bar>x\<bar>\<bar>\<rceil>)"
  proof (cases "1 \<le> \<bar>x * 2\<bar> \<and> \<bar>x * 2\<bar> < 2")
    case True
    with small show ?thesis by simp
  next
    case False
    with small have "\<bar>x * 2\<bar> < 1" by (simp add: abs_mult)
    then have "log 2 \<bar>x * 2\<bar> < 0" using x by simp
    with l have "log 2 \<bar>x\<bar> < - 1" by simp
    then have "nat \<lceil>\<bar>log 2 \<bar>x\<bar> + 1\<bar>\<rceil> < nat \<lceil>\<bar>log 2 \<bar>x\<bar>\<bar>\<rceil>"
      by (simp add: abs_if)
    with False small show ?thesis
      unfolding in_measure l [symmetric] by (simp del: abs_mult)
  qed
qed

declare bexp.simps [simp del]

definition binary64 :: rounding where
  "binary64 x =
     (if x = 0 then 0
      else (let e = bexp x - 52
            in real_of_int (round_even (x / 2 powi e)) * 2 powi e))"

text \<open>Conversion of a \<^verbatim>\<open>double\<close> to \<^verbatim>\<open>long\<close>: the fraction is discarded.\<close>

definition double_to_long :: "real \<Rightarrow> int" where
  "double_to_long x = (if 0 \<le> x then \<lfloor>x\<rfloor> else \<lceil>x\<rceil>)"

text \<open>
  Conversion of a \<^verbatim>\<open>long\<close> to \<^verbatim>\<open>double\<close>, as in \<^verbatim>\<open>(double)samp->o\<close> and
  for the operand \<^verbatim>\<open>n\<close> of \<^verbatim>\<open>n--*osd\<close>.
\<close>

definition long_to_double :: "rounding \<Rightarrow> int \<Rightarrow> real" where
  "long_to_double R n = R (real_of_int n)"

section \<open>Sampling grids\<close>

subsection \<open>The sample structure\<close>

text \<open>
  \<^verbatim>\<open>prop_samp\<close> is declared in a header; its fields are read off the code and the
  positional initialisers \<^verbatim>\<open>{n, d, i, f, o, v, fct}\<close> of \<^verbatim>\<open>maketempsample\<close>.
  The one-letter field names carry the prefix \<open>samp_\<close> here. The pointer \<^verbatim>\<open>v\<close> is
  \<open>None\<close> when it points to no block, and \<open>Some xs\<close> when it points to a block holding
  \<open>xs\<close>.
\<close>

record prop_samp =
  samp_n :: int
  samp_d :: real
  samp_i :: real
  samp_f :: real
  samp_o :: int
  samp_v :: "real list option"
  samp_fct :: real

text \<open>
  What a call of the grid generator can do: return a code, leaving the output structure in
  some state and having called \<^verbatim>\<open>calloc\<close> with the listed element counts; end the
  program (\<^verbatim>\<open>transiterror\<close> without \<^verbatim>\<open>TERR_ALLOWCONT\<close>); or access memory outside
  a block (undefined behaviour). A \<^verbatim>\<open>calloc\<close> of a positive count is taken to succeed.
\<close>

datatype outcome =
    Returned (code: int) (samp: prop_samp) (callocs: "int list")
  | Terminated
  | Undefined

subsection \<open>Number of points and filling of the values\<close>

text \<open>
  \<^verbatim>\<open>double okfinalexcess = 1e-8;\<close> The constant is the \<^verbatim>\<open>double\<close> next to
  \<open>10\<^sup>-\<^sup>8\<close>.
\<close>

definition okfinalexcess :: "rounding \<Rightarrow> real" where
  "okfinalexcess R = R (1 / 10 ^ 8)"

text \<open>
  \<^verbatim>\<open>if(samp->d<0) okfinalexcess = -okfinalexcess;\<close> and the value of the expression
  \<^verbatim>\<open>((1.0+okfinalexcess)*samp->f - samp->i)/samp->d + 1\<close>, with the sum, the
  product, the difference, the quotient and the last sum rounded one after the other.
\<close>

definition count_value :: "rounding \<Rightarrow> prop_samp \<Rightarrow> real" where
  "count_value R s =
     (let excess = (if samp_d s < 0 then - okfinalexcess R else okfinalexcess R)
      in R (R (R (R (R (1 + excess) * samp_f s) - samp_i s) / samp_d s) + 1))"

text \<open>
  \<^verbatim>\<open>samp->n = ((1.0+okfinalexcess)*samp->f - samp->i)/samp->d + 1;\<close>
  \<^verbatim>\<open>if(samp->n<0) samp->n = -samp->n;\<close>
\<close>

definition count_points :: "rounding \<Rightarrow> prop_samp \<Rightarrow> prop_samp" where
  "count_points R s =
     (let n = double_to_long (count_value R s)
      in s\<lparr>samp_n := (if n < 0 then - n else n)\<rparr>)"

text \<open>
  The stores of \<^verbatim>\<open>*v = si; v += --n; while(n) *v-- = si + n--*osd;\<close> in the order
  in which they happen, as pairs of index and value: the pointer \<^verbatim>\<open>v\<close> stands at
  index \<^verbatim>\<open>n\<close> throughout the loop.
\<close>

primrec loop_stores :: "rounding \<Rightarrow> real \<Rightarrow> real \<Rightarrow> nat \<Rightarrow> (nat \<times> real) list" where
  "loop_stores R si osd 0 = []"
| "loop_stores R si osd (Suc m) =
     (Suc m, R (si + R (long_to_double R (int (Suc m)) * osd))) # loop_stores R si osd m"

definition fill_stores :: "rounding \<Rightarrow> real \<Rightarrow> real \<Rightarrow> nat \<Rightarrow> (nat \<times> real) list" where
  "fill_stores R si osd n = (0, si) # loop_stores R si osd (n - 1)"

definition store :: "real list \<Rightarrow> nat \<times> real \<Rightarrow> real list" where
  "store v p = v[fst p := snd p]"

definition fill_values :: "rounding \<Rightarrow> real \<Rightarrow> real \<Rightarrow> nat \<Rightarrow> real list" where
  "fill_values R si osd n = foldl store (replicate n 0) (fill_stores R si osd n)"

text \<open>
  The common tail of both generators, from \<^verbatim>\<open>samp->n = (samp->n-1)*samp->o+1\<close> on,
  with \<^verbatim>\<open>osd = samp->d/(double)samp->o\<close>. With a count below one the first store
  \<^verbatim>\<open>*v = si\<close> is outside the block.
\<close>

definition oversample_fill :: "rounding \<Rightarrow> prop_samp \<Rightarrow> int \<Rightarrow> outcome" where
  "oversample_fill R s res =
     (let n = (samp_n s - 1) * samp_o s + 1;
          osd = R (samp_d s / long_to_double R (samp_o s))
      in if n < 1 then Undefined
         else Returned res
                (s\<lparr>samp_n := n, samp_v := Some (fill_values R (samp_i s) osd (nat n))\<rparr>) [n])"

subsection \<open>makesample1\<close>

definition makesample1 :: "rounding \<Rightarrow> prop_samp \<Rightarrow> prop_samp \<Rightarrow> outcome" where
  "makesample1 R sm ref =
     (let dhint = (samp_d ref \<noteq> 0);
          s1 = sm\<lparr>samp_fct := samp_fct ref, samp_i := samp_i ref, samp_f := samp_f ref\<rparr>
      in if samp_f s1 < samp_i s1 then Returned (- 3) s1 []
         else if \<not> dhint then Returned (- 5) s1 []
         else if samp_d ref \<noteq> 0 then
           (let s2 = count_points R (s1\<lparr>samp_d := samp_d ref\<rparr>)
            in if samp_o ref \<le> 0 then Returned (- 6) s2 []
               else oversample_fill R (s2\<lparr>samp_o := samp_o ref\<rparr>) 0)
         else Terminated)"

subsection \<open>makesample\<close>

text \<open>
  The check of the interval, the count, the choice of the oversampling and the filling:
  the part of \<^verbatim>\<open>makesample\<close> after the spacing has been chosen.
\<close>

definition range_and_fill :: "rounding \<Rightarrow> prop_samp \<Rightarrow> prop_samp \<Rightarrow> prop_samp \<Rightarrow> int \<Rightarrow> outcome" where
  "range_and_fill R s hint ref res =
     (if (samp_f s \<le> samp_i s \<and> samp_d s > 0) \<or> (samp_f s \<ge> samp_i s \<and> samp_d s < 0)
      then Returned (- 3) s []
      else
        (let s' = count_points R s
         in if samp_o hint \<le> 0 then
              (if samp_o ref \<le> 0 then Returned (- 6) s' []
               else oversample_fill R (s'\<lparr>samp_o := samp_o ref\<rparr>) res)
            else oversample_fill R (s'\<lparr>samp_o := samp_o hint\<rparr>) res))"

text \<open>
  The branch that adopts the array of the reference: \<^verbatim>\<open>calloc\<close> of \<^verbatim>\<open>ref->n\<close>
  elements and \<^verbatim>\<open>memcpy\<close> of as many from \<^verbatim>\<open>ref->v\<close>, which has to hold them.
\<close>

definition fixed_array :: "prop_samp \<Rightarrow> prop_samp \<Rightarrow> int \<Rightarrow> outcome" where
  "fixed_array s ref res =
     (case samp_v ref of
        None \<Rightarrow> Undefined
      | Some xs \<Rightarrow>
          if int (length xs) < samp_n ref then Undefined
          else Returned res
                 (s\<lparr>samp_n := samp_n ref, samp_d := 0,
                    samp_v := Some (take (nat (samp_n ref)) xs), samp_o := 0\<rparr>)
                 [samp_n ref])"

text \<open>
  The macro \<^verbatim>\<open>transitASSERT\<close> is declared in a header that is not part of the
  sources at hand. The parameter \<open>assert_ends\<close> says whether a failed assertion ends the
  program.
\<close>

definition makesample :: "rounding \<Rightarrow> bool \<Rightarrow> prop_samp \<Rightarrow> prop_samp \<Rightarrow> prop_samp \<Rightarrow> outcome" where
  "makesample R assert_ends sm hint ref =
     (let dhint = (samp_d hint \<noteq> 0);
          s1 = sm\<lparr>samp_fct := (if samp_fct hint \<le> 0 then samp_fct ref else samp_fct hint)\<rparr>;
          s2 = s1\<lparr>samp_i := (if samp_i hint \<le> 0 then samp_i ref else samp_i hint)\<rparr>;
          res1 = (if samp_i hint \<le> 0 then 0 OR 1 else 0);
          s3 = s2\<lparr>samp_f := (if samp_f hint \<le> 0 then samp_f ref else samp_f hint)\<rparr>;
          res = (if samp_f hint \<le> 0 then res1 OR 2 else res1)
      in if \<not> dhint then
           (if samp_d ref = 0 \<and> samp_n ref \<le> 0 then Returned (- 5) s3 []
            else if samp_d ref \<noteq> 0 then range_and_fill R (s3\<lparr>samp_d := samp_d ref\<rparr>) hint ref res
            else fixed_array s3 ref res)
         else if dhint then
           (if assert_ends \<and> samp_d hint \<le> 0 then Terminated
            else range_and_fill R (s3\<lparr>samp_d := samp_d hint\<rparr>) hint ref res)
         else Terminated)"


section \<open>Arrays and counted loops\<close>

text \<open>
  A \<^verbatim>\<open>double *\<close> parameter is embedded as a function from the index to the
  value stored there. The functions below receive bare pointers and no lengths, and the
  embedding does the same: which indexes belong to the block behind a pointer that a
  function receives is not part of the model. A block obtained from \<^verbatim>\<open>calloc\<close>
  is the function that is zero everywhere; where a function allocates its blocks itself
  (\<^verbatim>\<open>splinterp\<close>), the subscripts applied to them are checked against their
  extent. The arrays that a function only reads and the arrays that it writes are taken
  to be different blocks.
\<close>

type_synonym darray = "int \<Rightarrow> real"

definition calloc :: darray where
  "calloc = (\<lambda>i. 0)"

text \<open>\<^verbatim>\<open>for (i = 0; i < m; i++) body\<close>: the state after \<open>m\<close> rounds.\<close>

primrec for_loop :: "nat \<Rightarrow> (int \<Rightarrow> 's \<Rightarrow> 's) \<Rightarrow> 's \<Rightarrow> 's" where
  "for_loop 0 body s = s"
| "for_loop (Suc m) body s = body (int m) (for_loop m body s)"

text \<open>\<^verbatim>\<open>for (j = m; j >= 1; j--) body\<close>.\<close>

primrec for_down :: "nat \<Rightarrow> (int \<Rightarrow> 's \<Rightarrow> 's) \<Rightarrow> 's \<Rightarrow> 's" where
  "for_down 0 body s = s"
| "for_down (Suc m) body s = for_down m body (body (int (Suc m)) s)"

section \<open>The tridiagonal solver\<close>

text \<open>
  The body of the first loop of \<^verbatim>\<open>tri\<close>, at index \<open>i\<close>, on the arrays \<open>d\<close> and
  \<open>b\<close> that it updates:
  \<^verbatim>\<open>xmult = a[i-1]/d[i-1]; d[i] = d[i] - xmult*c[i-1]; b[i] = b[i] - xmult*b[i-1];\<close>
\<close>

definition tri_eliminate ::
  "rounding \<Rightarrow> darray \<Rightarrow> darray \<Rightarrow> int \<Rightarrow> darray \<times> darray \<Rightarrow> darray \<times> darray" where
  "tri_eliminate R a c i db =
     (let d = fst db; b = snd db; xmult = R (a (i - 1) / d (i - 1))
      in (d(i := R (d i - R (xmult * c (i - 1)))), b(i := R (b i - R (xmult * b (i - 1))))))"

text \<open>The body of the second loop: \<^verbatim>\<open>e[j] = (b[j-1]-c[j-1]*e[j+1])/d[j-1];\<close>\<close>

definition tri_substitute :: "rounding \<Rightarrow> darray \<Rightarrow> darray \<Rightarrow> darray \<Rightarrow> int \<Rightarrow> darray \<Rightarrow> darray" where
  "tri_substitute R d c b j e = e(j := R (R (b (j - 1) - R (c (j - 1) * e (j + 1))) / d (j - 1)))"

text \<open>
  \<^verbatim>\<open>tri\<close> returns the arrays \<open>d\<close>, \<open>b\<close> and \<open>e\<close> as it leaves them. The first loop
  runs \<open>i\<close> from 1 to \<open>n\<close>, the second runs \<open>j\<close> from \<open>n\<close> down to 1.
\<close>

definition tri ::
  "rounding \<Rightarrow> darray \<Rightarrow> darray \<Rightarrow> darray \<Rightarrow> darray \<Rightarrow> darray \<Rightarrow> int \<Rightarrow> darray \<times> darray \<times> darray" where
  "tri R a d c b e n =
     (let db = for_loop (nat n) (\<lambda>k. tri_eliminate R a c (k + 1)) (d, b);
          d1 = fst db; b1 = snd db;
          e1 = e(n - 1 := R (b1 (n - 1) / d1 (n - 1)));
          e2 = for_down (nat n) (tri_substitute R d1 c b1) e1;
          e3 = e2(0 := 0);
          e4 = e3(n + 1 := 0)
      in (d1, b1, e4))"

section \<open>Cubic spline interpolation\<close>

text \<open>
  The inner loop of \<^verbatim>\<open>spline3\<close>: \<open>j\<close> becomes the last \<open>i < N - 1\<close> with
  \<^verbatim>\<open>xi[i] <= x[n]\<close>, and keeps its former value where there is none.
\<close>

definition spline3_locate :: "darray \<Rightarrow> int \<Rightarrow> real \<Rightarrow> int \<Rightarrow> int" where
  "spline3_locate xi N x j = for_loop (nat (N - 1)) (\<lambda>i j. if xi i \<le> x then i else j) j"

text \<open>
  The evaluation in \<^verbatim>\<open>spline3\<close>:
  \<^verbatim>\<open>amult = (z[j+1] - z[j])/(6*h[j]); bmult = z[j]/2;\<close>
  \<^verbatim>\<open>cmult = (yi[j+1] - yi[j])/h[j] -h[j]/6 * (z[j+1] + 2 * z[j]); dx = x[n] - xi[j];\<close>
  \<^verbatim>\<open>y[n] = yi[j] + dx*cmult + dx*dx*bmult + dx*dx*dx*amult;\<close>
\<close>

definition spline3_eval :: "rounding \<Rightarrow> darray \<Rightarrow> darray \<Rightarrow> darray \<Rightarrow> darray \<Rightarrow> int \<Rightarrow> real \<Rightarrow> real" where
  "spline3_eval R xi yi z h j x =
     (let amult = R (R (z (j + 1) - z j) / R (6 * h j));
          bmult = R (z j / 2);
          cmult = R (R (R (yi (j + 1) - yi j) / h j) - R (R (h j / 6) * R (z (j + 1) + R (2 * z j))));
          dx = R (x - xi j)
      in R (R (R (yi j + R (dx * cmult)) + R (R (dx * dx) * bmult)) + R (R (R (dx * dx) * dx) * amult)))"

text \<open>
  \<^verbatim>\<open>spline3\<close>: the variable \<open>j\<close> has no initial value in the code; its value before
  the first round is the parameter \<open>j0\<close>. The result is the array \<open>y\<close>.
\<close>

definition spline3 ::
  "rounding \<Rightarrow> darray \<Rightarrow> darray \<Rightarrow> darray \<Rightarrow> darray \<Rightarrow> darray \<Rightarrow> darray \<Rightarrow> int \<Rightarrow> int \<Rightarrow> int \<Rightarrow> darray" where
  "spline3 R xi yi x z h y nx N j0 =
     snd (for_loop (nat (nx + 1))
            (\<lambda>n jy. let j = spline3_locate xi N (x n) (fst jy)
                     in (j, (snd jy)(n := spline3_eval R xi yi z h j (x n))))
            (j0, y(0 := yi 0)))"

text \<open>
  \<^verbatim>\<open>splinterp\<close> obtains its work arrays from \<^verbatim>\<open>calloc\<close>, so the extent of
  these blocks is known: \<open>N\<close> elements for \<^verbatim>\<open>b\<close>, \<^verbatim>\<open>h\<close>, \<^verbatim>\<open>k\<close>,
  \<^verbatim>\<open>a\<close>, \<^verbatim>\<open>d\<close> and \<^verbatim>\<open>e\<close> (\<^verbatim>\<open>c\<close> is set to \<^verbatim>\<open>a\<close>), and, after
  \<^verbatim>\<open>nx -= 1\<close>, \<^verbatim>\<open>nx + 1\<close> elements for \<^verbatim>\<open>y\<close>. A subscript is inside a block
  of \<open>len\<close> elements when it is at least 0 and below \<open>len\<close>; a run that uses a subscript
  outside a block has undefined behaviour.
\<close>

definition in_block :: "int \<Rightarrow> int \<Rightarrow> bool" where
  "in_block len i \<longleftrightarrow> 0 \<le> i \<and> i < len"

text \<open>
  The subscripts that \<^verbatim>\<open>tri\<close> applies to its arrays, statement by statement: the
  rounds of the first loop use \<open>i - 1\<close> and \<open>i\<close>, the store
  \<^verbatim>\<open>e[n-1] = b[n-1]/d[n-1]\<close> uses \<open>n - 1\<close>, the rounds of the second loop use \<open>j\<close>,
  \<open>j - 1\<close> and \<open>j + 1\<close>, and the last two stores use 0 and \<open>n + 1\<close>.
\<close>

definition tri_subscripts :: "int \<Rightarrow> int list" where
  "tri_subscripts n =
     concat (map (\<lambda>i. [i - 1, i]) [1..n]) @ [n - 1]
     @ concat (map (\<lambda>j. [j, j - 1, j + 1]) (rev [1..n])) @ [0, n + 1]"

text \<open>
  The subscripts \<open>j\<close> and \<open>j + 1\<close> that the rounds of \<^verbatim>\<open>spline3\<close> apply to
  \<^verbatim>\<open>z\<close>, \<^verbatim>\<open>h\<close> and \<^verbatim>\<open>yi\<close>, with \<open>j\<close> as the inner loop leaves it.
\<close>

definition spline3_subscripts :: "darray \<Rightarrow> darray \<Rightarrow> int \<Rightarrow> int \<Rightarrow> int \<Rightarrow> int list" where
  "spline3_subscripts xi x nx N j0 =
     snd (for_loop (nat (nx + 1))
            (\<lambda>n js. let j = spline3_locate xi N (x n) (fst js) in (j, snd js @ [j, j + 1]))
            (j0, []))"

text \<open>
  The subscripts of the loops of \<^verbatim>\<open>splinterp\<close> itself, on its blocks of \<open>N\<close>
  elements: \<^verbatim>\<open>b[0]\<close>, then \<^verbatim>\<open>b[i+1]\<close> (and \<^verbatim>\<open>b[i]\<close>) for \<open>i\<close> from 0 to
  \<open>N - 2\<close>; \<^verbatim>\<open>h[i]\<close> for \<open>i\<close> from 0 to \<open>N - 2\<close>; and \<^verbatim>\<open>k[i]\<close>,
  \<^verbatim>\<open>a[i]\<close>, \<^verbatim>\<open>d[i]\<close>, \<^verbatim>\<open>h[i]\<close> and \<^verbatim>\<open>h[i+1]\<close> for \<open>i\<close> from 0 to
  \<open>N - 3\<close> (the code lowers \<open>N\<close> by one around these loops).
\<close>

definition splinterp_subscripts :: "int \<Rightarrow> int list" where
  "splinterp_subscripts N =
     0 # map (\<lambda>i. i + 1) [0..N - 2] @ [0..N - 2] @ concat (map (\<lambda>i. [i, i + 1]) [0..N - 3])"

text \<open>
  \<^verbatim>\<open>splinterp\<close>: the arrays \<open>h\<close>, \<open>k\<close>, \<open>a\<close> and \<open>d\<close> are filled by loops whose
  rounds are independent assignments, written here as the arrays they leave in the zeroed
  blocks. The array \<^verbatim>\<open>b\<close> of the code is filled and never read, and the argument
  \<^verbatim>\<open>yout\<close> is overwritten by the result. The result is \<open>None\<close> when the run uses a
  subscript outside one of the blocks that \<^verbatim>\<open>splinterp\<close> has allocated: with
  \<open>N = 2\<close> the call \<^verbatim>\<open>tri(a, d, c, k, e, N-2)\<close> stores to \<^verbatim>\<open>e[-1]\<close>. The arrays
  \<^verbatim>\<open>xi\<close>, \<^verbatim>\<open>yi\<close> and \<^verbatim>\<open>xout\<close> belong to the caller; when they hold \<open>N\<close>,
  \<open>N\<close> and \<open>nx\<close> elements, the subscripts that a run with result \<open>Some\<close> applies
  to them are inside as well.
\<close>

definition splinterp ::
  "rounding \<Rightarrow> int \<Rightarrow> darray \<Rightarrow> darray \<Rightarrow> int \<Rightarrow> darray \<Rightarrow> int \<Rightarrow> darray option" where
  "splinterp R N xi yi nx xout j0 =
     (let nx1 = nx - 1;
          N1 = N - 1;
          h = (\<lambda>i. if 0 \<le> i \<and> i \<le> N1 - 1 then R (xi (i + 1) - xi i) else calloc i);
          k = (\<lambda>i. if 0 \<le> i \<and> i \<le> N1 - 2
                     then R (6 * R (R (R (yi (i + 2) - yi (i + 1)) / h (i + 1))
                                    - R (R (yi (i + 1) - yi i) / h i)))
                     else calloc i);
          a = (\<lambda>i. if 0 \<le> i \<and> i \<le> N1 - 2 then h (i + 1) else calloc i);
          d = (\<lambda>i. if 0 \<le> i \<and> i \<le> N1 - 2 then R (2 * R (h i + h (i + 1))) else calloc i);
          c = a;
          e = calloc;
          z = snd (snd (tri R a d c k e (N - 2)))
      in if list_all (in_block N)
              (splinterp_subscripts N @ tri_subscripts (N - 2) @ spline3_subscripts xi xout nx1 N j0)
            \<and> list_all (in_block (nx1 + 1)) (0 # [0..nx1])
         then Some (spline3 R xi yi xout z h calloc nx1 N j0)
         else None)"

text \<open>
  The search of \<^verbatim>\<open>splinterp_pt\<close>. The code keeps \<^verbatim>\<open>midindex = (first + last)/2\<close>
  up to date after every change of \<^verbatim>\<open>first\<close> or \<^verbatim>\<open>last\<close>; here it is computed
  at the head of each round. \<open>None\<close> is the exit of the loop with \<^verbatim>\<open>first > last\<close>,
  which leaves \<^verbatim>\<open>index\<close> without a value. The variable \<^verbatim>\<open>last\<close> is \<open>last1\<close> here.
\<close>

function pt_search :: "darray \<Rightarrow> real \<Rightarrow> int \<Rightarrow> int \<Rightarrow> int option" where
  "pt_search x xout first last1 =
     (if first \<le> last1 then
        (let midindex = (first + last1) sdiv 2
         in if x midindex < xout \<and> x (midindex + 1) > xout then Some midindex
            else if x midindex < xout then pt_search x xout (midindex + 1) last1
            else if x midindex > xout then pt_search x xout first (midindex - 1)
            else Some midindex)
      else None)"
  by pat_completeness auto
termination
proof (relation "measure (\<lambda>(x, xout, first, last1). nat (last1 - first + 1))")
  show "wf (measure (\<lambda>(x, xout, first, last1). nat (last1 - first + 1)))"
    by simp
next
  fix x :: darray and xout :: real and first last1 midindex :: int
  assume "first \<le> last1" and "midindex = (first + last1) sdiv 2"
  then have "first \<le> midindex"
    by (cases "0 \<le> first + last1") (auto simp: signed_divide_int_def sgn_if)
  then show "((x, xout, midindex + 1, last1), (x, xout, first, last1))
      \<in> measure (\<lambda>(x, xout, first, last1). nat (last1 - first + 1))"
    using \<open>first \<le> last1\<close> by simp
next
  fix x :: darray and xout :: real and first last1 midindex :: int
  assume "first \<le> last1" and "midindex = (first + last1) sdiv 2"
  then have "midindex \<le> last1"
    by (cases "0 \<le> first + last1") (auto simp: signed_divide_int_def sgn_if)
  then show "((x, xout, first, midindex - 1), (x, xout, first, last1))
      \<in> measure (\<lambda>(x, xout, first, last1). nat (last1 - first + 1))"
    using \<open>first \<le> last1\<close> by simp
qed

declare pt_search.simps [simp del]

text \<open>
  The evaluation at the end of \<^verbatim>\<open>splinterp_pt\<close>, at the interval \<open>index\<close>.
\<close>

definition splinterp_pt_eval :: "rounding \<Rightarrow> darray \<Rightarrow> darray \<Rightarrow> darray \<Rightarrow> int \<Rightarrow> real \<Rightarrow> real" where
  "splinterp_pt_eval R z x y index xout =
     (let x_lo = x index; x_hi = x (index + 1);
          y_lo = y index; y_hi = y (index + 1);
          h = R (x_hi - x_lo);
          dy = R (y_hi - y_lo)
      in if x index = xout then y index
         else if h > 0 then
           (let dx = R (xout - x_lo);
                a = R (R (z (index + 1) - z index) / R (6 * h));
                b = R (z index / 2);
                c = R (R (dy / h) - R (R (h / 6) * R (z (index + 1) + R (2 * z index))))
            in R (y_lo + R (dx * R (c + R (dx * R (b + R (dx * a)))))))
         else 0)"

text \<open>
  \<^verbatim>\<open>splinterp_pt\<close>: \<open>index0\<close> is the value that \<^verbatim>\<open>index\<close> holds when the search
  has not set it.
\<close>

definition splinterp_pt :: "rounding \<Rightarrow> darray \<Rightarrow> int \<Rightarrow> darray \<Rightarrow> darray \<Rightarrow> real \<Rightarrow> int \<Rightarrow> real" where
  "splinterp_pt R z N x y xout index0 =
     splinterp_pt_eval R z x y (case pt_search x xout 0 N of Some m \<Rightarrow> m | None \<Rightarrow> index0) xout"

section \<open>Simpson integration\<close>




definition simpson :: "darray \<Rightarrow> darray \<Rightarrow> darray \<Rightarrow> darray \<Rightarrow> int \<Rightarrow> real" where
  "simpson y hsum hratio hfactor n =
     for_loop (nat ((n - 1) sdiv 2))
       (\<lambda>i res. let j = 2 * i + (if n smod 2 = 0 then 1 else 0)
                 in res + (y j * (2 - hratio i) + y (j + 1) * hfactor i
                           + y (j + 2) * (2 - 1 / hratio i)) * hsum i)
       0 / 6"

definition simps :: "darray \<Rightarrow> darray \<Rightarrow> darray \<Rightarrow> darray \<Rightarrow> darray \<Rightarrow> int \<Rightarrow> real" where
  "simps y h hsum hratio hfactor n =
     (let even = (n smod 2 = 0)
      in if n = 1 then 0
         else if n = 2 then h 0 * (y 0 + y 1) / 2
         else
           (let integ = simpson y hsum hratio hfactor n
            in if even then integ + h 0 * (y 0 + y 1) / 2 else integ))"

section \<open>Saving and restoring a sample\<close>

text \<open>
  A file is embedded as the list of the objects written to it: a structure written by
  one \<^verbatim>\<open>fwrite\<close> of \<^verbatim>\<open>sizeof(prop_samp)\<close> bytes, or one value of an array. The
  bytes of an object are not modelled. The structure goes to the file with its pointer
  \<^verbatim>\<open>v\<close> as it is, and comes back with whatever pointer the file holds; nothing
  reads through it before \<^verbatim>\<open>restsample_arr\<close> replaces it.
\<close>

datatype fitem = Header prop_samp | Value real

text \<open>
  \<^verbatim>\<open>savesample_arr\<close> appends \<^verbatim>\<open>samp->n\<close> values of the block \<^verbatim>\<open>samp->v\<close>,
  which has to hold them: \<open>None\<close> is a read outside the block.
\<close>

definition savesample_arr :: "fitem list \<Rightarrow> prop_samp \<Rightarrow> fitem list option" where
  "savesample_arr out sm =
     (if samp_n sm > 0 then
        (case samp_v sm of
           None \<Rightarrow> None
         | Some xs \<Rightarrow>
             if int (length xs) < samp_n sm then None
             else Some (out @ map Value (take (nat (samp_n sm)) xs)))
      else Some out)"

definition savesample :: "fitem list \<Rightarrow> prop_samp \<Rightarrow> fitem list option" where
  "savesample out sm = savesample_arr (out @ [Header sm]) sm"

text \<open>
  \<^verbatim>\<open>fread\<close> of \<open>k\<close> values: the values at the head of the input, at most \<open>k\<close> of
  them, and the input that is left.
\<close>

fun fread_values :: "nat \<Rightarrow> fitem list \<Rightarrow> real list \<times> fitem list" where
  "fread_values (Suc k) (Value x # inp) =
     (let r = fread_values k inp in (x # fst r, snd r))"
| "fread_values k inp = ([], inp)"

text \<open>
  \<^verbatim>\<open>restsample_arr\<close> returns its code, the structure and the input that is left.
  \<open>calloc_ok\<close> says whether \<^verbatim>\<open>calloc\<close> returns a block. A short read leaves the
  block zero behind the values read.
\<close>

definition restsample_arr :: "bool \<Rightarrow> fitem list \<Rightarrow> prop_samp \<Rightarrow> int \<times> prop_samp \<times> fitem list" where
  "restsample_arr calloc_ok inp sm =
     (if samp_n sm < 0 then (- 2, sm, inp)
      else if samp_n sm > 1000000 then (1, sm, inp)
      else if \<not> calloc_ok then (- 3, sm\<lparr>samp_v := None\<rparr>, inp)
      else if samp_n sm = 0 then (0, sm\<lparr>samp_v := Some []\<rparr>, inp)
      else
        (let k = nat (samp_n sm);
             r = fread_values k inp;
             block = fst r @ replicate (k - length (fst r)) 0
         in if length (fst r) \<noteq> k then (- 1, sm\<lparr>samp_v := Some block\<rparr>, snd r)
            else (0, sm\<lparr>samp_v := Some block\<rparr>, snd r)))"

text \<open>
  \<^verbatim>\<open>restsample\<close>: the \<^verbatim>\<open>fread\<close> of the structure succeeds when a structure is
  next in the input.
\<close>

definition restsample :: "bool \<Rightarrow> fitem list \<Rightarrow> prop_samp \<Rightarrow> int \<times> prop_samp \<times> fitem list" where
  "restsample calloc_ok inp sm =
     (case inp of
        Header s # rest \<Rightarrow> restsample_arr calloc_ok rest s
      | _ \<Rightarrow> (- 1, sm, inp))"


text \<open>
  What a run that reaches the filling of the values leaves in the structure: the count
  from the expression above with the oversampling applied, and the block as filled.
\<close>

definition spaced :: "rounding \<Rightarrow> prop_samp \<Rightarrow> bool" where
  "spaced R s \<longleftrightarrow>
     0 < samp_o s \<and>
     (let n0 = \<bar>double_to_long (count_value R s)\<bar>
      in samp_n s = (n0 - 1) * samp_o s + 1 \<and> 1 \<le> samp_n s \<and>
         samp_v s = Some (fill_values R (samp_i s) (R (samp_d s / long_to_double R (samp_o s)))
                            (nat (samp_n s))))"

text \<open>
  The structure with every field zero, as \<^verbatim>\<open>memset\<close> leaves it in
  \<^verbatim>\<open>makewnsample\<close>; the examples below start from it.
\<close>

definition unset :: prop_samp where
  "unset = \<lparr>samp_n = 0, samp_d = 0, samp_i = 0, samp_f = 0, samp_o = 0, samp_v = None, samp_fct = 0\<rparr>"

chapter \<open>Properties\<close>

section \<open>Rounding to binary64\<close>

text \<open>
  The rounding of a number whose binary exponent \<open>p\<close> is known, and the roundings that
  the examples below need.
\<close>

lemma bexp_eq:
  "x \<noteq> 0 \<Longrightarrow> 2 powi p \<le> \<bar>x\<bar> \<Longrightarrow> \<bar>x\<bar> < 2 powi (p + 1) \<Longrightarrow> bexp x = p"
proof (induction x arbitrary: p rule: bexp.induct)
  case (1 x)
  show ?case
  proof (cases "2 \<le> \<bar>x\<bar>")
    case True
    have "2 powi (p - 1) \<le> \<bar>x / 2\<bar>"
      using "1.prems"(2) by (simp add: power_int_diff)
    moreover have "\<bar>x / 2\<bar> < 2 powi (p - 1 + 1)"
      using "1.prems"(3) by (simp add: power_int_add)
    ultimately have "bexp (x / 2) = p - 1"
      using "1.prems"(1) True by (intro "1.IH"(1)) simp_all
    with True "1.prems"(1) show ?thesis
      by (subst bexp.simps) simp
  next
    case False
    show ?thesis
    proof (cases "\<bar>x\<bar> < 1")
      case True
      have "2 powi (p + 1) \<le> \<bar>x * 2\<bar>"
        using "1.prems"(2) by (simp add: power_int_add)
      moreover have "\<bar>x * 2\<bar> < 2 powi (p + 1 + 1)"
        using "1.prems"(3) by (simp add: power_int_add)
      ultimately have "bexp (x * 2) = p + 1"
        using "1.prems"(1) False True by (intro "1.IH"(2)) simp_all
      with False True "1.prems"(1) show ?thesis
        by (subst bexp.simps) simp
    next
      case ge: False
      from ge False have r: "1 \<le> \<bar>x\<bar>" "\<bar>x\<bar> < 2" by simp_all
      have "p = 0"
      proof (rule ccontr)
        assume "p \<noteq> 0"
        then consider "1 \<le> p" | "p \<le> - 1" by linarith
        then show False
        proof cases
          case 1
          then have "(2::real) powi 1 \<le> 2 powi p"
            by (intro power_int_increasing) simp_all
          with "1.prems"(2) r show False by simp
        next
          case 2
          then have "(2::real) powi (p + 1) \<le> 2 powi 0"
            by (intro power_int_increasing) simp_all
          with "1.prems"(3) r show False by simp
        qed
      qed
      with ge False "1.prems"(1) show ?thesis
        by (subst bexp.simps) simp
    qed
  qed
qed

lemma binary64_eval:
  assumes x: "x \<noteq> 0" and lo: "2 powi p \<le> \<bar>x\<bar>" and hi: "\<bar>x\<bar> < 2 powi (p + 1)"
  shows "binary64 x = real_of_int (round_even (x / 2 powi (p - 52))) * 2 powi (p - 52)"
  using x bexp_eq [OF x lo hi] by (simp add: binary64_def Let_def)

lemma binary64_0: "binary64 0 = 0"
  by (simp add: binary64_def)

lemma binary64_small:
  "binary64 1 = 1" "binary64 (- 1) = - 1" "binary64 2 = 2" "binary64 (- 2) = - 2"
  "binary64 3 = 3" "binary64 4 = 4" "binary64 6 = 6" "binary64 18 = 18"
  "binary64 (1 / 2) = 1 / 2" "binary64 (1 / 4) = 1 / 4" "binary64 (- (1 / 4)) = - (1 / 4)"
  using binary64_eval [of 1 0] binary64_eval [of "- 1" 0] binary64_eval [of 2 1]
    binary64_eval [of "- 2" 1] binary64_eval [of 3 1] binary64_eval [of 4 2]
    binary64_eval [of 6 2] binary64_eval [of 18 4] binary64_eval [of "1 / 2" "- 1"]
    binary64_eval [of "1 / 4" "- 2"] binary64_eval [of "- (1 / 4)" "- 2"]
  by (simp_all add: round_even_def power_int_minus)

lemma binary64_absorbed: "binary64 (- (1152921504606846975 / 1152921504606846976)) = - 1"
  using binary64_eval [of "- (1152921504606846975 / 1152921504606846976)" "- 1"]
  by (simp add: round_even_def power_int_minus)

lemma binary64_ninth:
  "binary64 (- (1 / 9)) = - (2001599834386887 / 18014398509481984)"
  "binary64 (- (2001599834386887 / 18014398509481984)) = - (2001599834386887 / 18014398509481984)"
  "binary64 (16012798675095097 / 18014398509481984) = 2001599834386887 / 2251799813685248"
  "binary64 (2001599834386887 / 2251799813685248) = 2001599834386887 / 2251799813685248"
  "binary64 (- (250199979298361 / 2251799813685248)) = - (250199979298361 / 2251799813685248)"
  using binary64_eval [of "- (1 / 9)" "- 4"]
    binary64_eval [of "- (2001599834386887 / 18014398509481984)" "- 4"]
    binary64_eval [of "16012798675095097 / 18014398509481984" "- 1"]
    binary64_eval [of "2001599834386887 / 2251799813685248" "- 1"]
    binary64_eval [of "- (250199979298361 / 2251799813685248)" "- 4"]
  by (simp_all add: round_even_def power_int_minus)


text \<open>
  The roundings in the runs of the grid generator below: the constant \<open>1e-8\<close>, the
  sums \<open>1 + 1e-8\<close> and \<open>1 - 1e-8\<close>, and the intermediate results of the examples.
\<close>

lemma binary64_dyadic:
  "binary64 5 = 5" "binary64 (- (1 / 2)) = - (1 / 2)" "binary64 (3 / 4) = 3 / 4"
  "binary64 (5 / 4) = 5 / 4" "binary64 (3 / 2) = 3 / 2" "binary64 (7 / 4) = 7 / 4"
  "binary64 (5 / 16) = 5 / 16" "binary64 (5 / 8) = 5 / 8" "binary64 (21 / 16) = 21 / 16"
  "binary64 (13 / 8) = 13 / 8"
  using binary64_eval [of 5 2] binary64_eval [of "- (1 / 2)" "- 1"] binary64_eval [of "3 / 4" "- 1"]
    binary64_eval [of "5 / 4" 0] binary64_eval [of "3 / 2" 0] binary64_eval [of "7 / 4" 0]
    binary64_eval [of "5 / 16" "- 2"] binary64_eval [of "5 / 8" "- 1"] binary64_eval [of "21 / 16" 0]
    binary64_eval [of "13 / 8" 0]
  by (simp_all add: round_even_def power_int_minus)

lemma binary64_excess:
  "binary64 (1 / 100000000) = 3022314549036573 / 302231454903657293676544"
  "binary64 (302231457925971842713117 / 302231454903657293676544) = 1125899918101623 / 1125899906842624"
  "binary64 (302231451881342744639971 / 302231454903657293676544) = 9007199164668999 / 9007199254740992"
  using binary64_eval [of "1 / 100000000" "- 27"]
    binary64_eval [of "302231457925971842713117 / 302231454903657293676544" 0]
    binary64_eval [of "302231451881342744639971 / 302231454903657293676544" "- 1"]
  by (simp_all add: round_even_def power_int_minus)

lemma binary64_counts:
  "binary64 (1267650600228229274731644723375 / 633825300114114700748351602688)
     = 9007199254740991 / 4503599627370496"
  "binary64 (9007199254740991 / 4503599627370496) = 9007199254740991 / 4503599627370496"
  "binary64 (9007199254740991 / 2251799813685248) = 9007199254740991 / 2251799813685248"
  "binary64 (11258999068426239 / 2251799813685248) = 5"
  "binary64 (1125899918101623 / 562949953421312) = 1125899918101623 / 562949953421312"
  "binary64 (562949964680311 / 562949953421312) = 562949964680311 / 562949953421312"
  "binary64 (562949964680311 / 351843720888320) = 7205759547907981 / 4503599627370496"
  "binary64 (11709359175278477 / 4503599627370496) = 2927339793819619 / 1125899906842624"
  "binary64 (562949964680311 / 281474976710656) = 562949964680311 / 281474976710656"
  "binary64 (844424941390967 / 281474976710656) = 844424941390967 / 281474976710656"
  "binary64 (9007199164668999 / 9007199254740992) = 9007199164668999 / 9007199254740992"
  "binary64 (- (9007199344812985 / 9007199254740992)) = - (1125899918101623 / 1125899906842624)"
  "binary64 (1688849871522935 / 562949953421312) = 1688849871522935 / 562949953421312"
  using binary64_eval [of "1267650600228229274731644723375 / 633825300114114700748351602688" 0]
    binary64_eval [of "9007199254740991 / 4503599627370496" 0]
    binary64_eval [of "9007199254740991 / 2251799813685248" 1]
    binary64_eval [of "11258999068426239 / 2251799813685248" 2]
    binary64_eval [of "1125899918101623 / 562949953421312" 1]
    binary64_eval [of "562949964680311 / 562949953421312" 0]
    binary64_eval [of "562949964680311 / 351843720888320" 0]
    binary64_eval [of "11709359175278477 / 4503599627370496" 1]
    binary64_eval [of "562949964680311 / 281474976710656" 1]
    binary64_eval [of "844424941390967 / 281474976710656" 1]
    binary64_eval [of "9007199164668999 / 9007199254740992" "- 1"]
    binary64_eval [of "- (9007199344812985 / 9007199254740992)" 0]
    binary64_eval [of "1688849871522935 / 562949953421312" 1]
  by (simp_all add: round_even_def power_int_minus)

lemma binary64_near_billion:
  "binary64 (2199023277542232421875 / 2199023255552) = 8388608083886079 / 8388608"
  "binary64 (167772159 / 8388608) = 167772159 / 8388608"
  "binary64 (176160767 / 8388608) = 176160767 / 8388608"
  using binary64_eval [of "2199023277542232421875 / 2199023255552" 29]
    binary64_eval [of "167772159 / 8388608" 4]
    binary64_eval [of "176160767 / 8388608" 4]
  by (simp_all add: round_even_def power_int_minus)

section \<open>The grid generator\<close>

lemma length_foldl_store: "length (foldl store v ws) = length v"
  by (induction ws arbitrary: v) (simp_all add: store_def)

lemma loop_stores_indexes: "map fst (loop_stores R si osd m) = rev [1..<Suc m]"
  by (induction m) simp_all

lemma foldl_loop_stores_nth:
  "m < length v \<Longrightarrow> k < length v \<Longrightarrow>
   foldl store v (loop_stores R si osd m) ! k =
     (if 1 \<le> k \<and> k \<le> m then R (si + R (long_to_double R (int k) * osd)) else v ! k)"
proof (induction m arbitrary: v)
  case 0
  then show ?case by simp
next
  case (Suc m)
  then show ?case
    by (auto simp: store_def nth_list_update)
qed

lemma length_fill_values: "length (fill_values R si osd n) = n"
  by (simp add: fill_values_def length_foldl_store)

lemma fill_values_nth:
  assumes "k < n"
  shows "fill_values R si osd n ! k =
           (if k = 0 then si else R (si + R (long_to_double R (int k) * osd)))"
proof -
  have "fill_values R si osd n = foldl store ((replicate n 0)[0 := si]) (loop_stores R si osd (n - 1))"
    by (simp add: fill_values_def fill_stores_def store_def)
  then show ?thesis
    using assms by (auto simp: foldl_loop_stores_nth nth_list_update)
qed

lemma fill_stores_indexes: "map fst (fill_stores R si osd n) = 0 # rev [1..<n]"
  by (cases n) (simp_all add: fill_stores_def loop_stores_indexes del: upt_Suc)

lemma oversample_fill_spaced:
  assumes "oversample_fill R ((count_points R s0)\<lparr>samp_o := ov\<rparr>) res = Returned r s al" and "0 < ov"
  shows "spaced R s \<and> r = res \<and> al = [samp_n s] \<and> samp_d s = samp_d s0 \<and> samp_i s = samp_i s0
         \<and> samp_f s = samp_f s0 \<and> samp_o s = ov"
  using assms
  by (auto simp: oversample_fill_def count_points_def count_value_def spaced_def Let_def abs_if
           split: if_splits)

lemma range_and_fill_spaced:
  assumes "range_and_fill R s0 hint ref res = Returned r s al" and "0 \<le> r"
  shows "spaced R s \<and> r = res \<and> al = [samp_n s] \<and> samp_d s = samp_d s0 \<and> samp_i s = samp_i s0
         \<and> samp_f s = samp_f s0 \<and>
         \<not> ((samp_f s \<le> samp_i s \<and> samp_d s > 0) \<or> (samp_f s \<ge> samp_i s \<and> samp_d s < 0))"
  using assms
    oversample_fill_spaced [where R = R and ?s0.0 = s0 and ov = "samp_o ref" and res = res and r = r and s = s and al = al]
    oversample_fill_spaced [where R = R and ?s0.0 = s0 and ov = "samp_o hint" and res = res and r = r and s = s and al = al]
  by (auto simp: range_and_fill_def Let_def split: if_splits)

lemma makesample_spaced:
  assumes "makesample R A sm hint ref = Returned r s al" and "0 \<le> r" and "samp_d s \<noteq> 0"
  shows "spaced R s \<and> al = [samp_n s] \<and>
         \<not> ((samp_f s \<le> samp_i s \<and> samp_d s > 0) \<or> (samp_f s \<ge> samp_i s \<and> samp_d s < 0))"
proof -
  let ?s3 = "sm\<lparr>samp_fct := (if samp_fct hint \<le> 0 then samp_fct ref else samp_fct hint),
                 samp_i := (if samp_i hint \<le> 0 then samp_i ref else samp_i hint),
                 samp_f := (if samp_f hint \<le> 0 then samp_f ref else samp_f hint)\<rparr>"
  from assms consider
      d where "range_and_fill R (?s3\<lparr>samp_d := d\<rparr>) hint ref
                 (if samp_f hint \<le> 0 then (if samp_i hint \<le> 0 then 0 OR 1 else 0) OR 2
                  else (if samp_i hint \<le> 0 then 0 OR 1 else 0)) = Returned r s al"
    | "fixed_array ?s3 ref
                 (if samp_f hint \<le> 0 then (if samp_i hint \<le> 0 then 0 OR 1 else 0) OR 2
                  else (if samp_i hint \<le> 0 then 0 OR 1 else 0)) = Returned r s al"
    by (auto simp: makesample_def Let_def split: if_splits)
  then show ?thesis
  proof cases
    case 1
    with assms(2) show ?thesis
      using range_and_fill_spaced by blast
  next
    case 2
    with assms(3) show ?thesis
      by (auto simp: fixed_array_def split: option.splits if_splits)
  qed
qed

lemma makesample1_spaced:
  assumes "makesample1 R sm ref = Returned r s al" and "0 \<le> r"
  shows "spaced R s \<and> al = [samp_n s] \<and> samp_i s \<le> samp_f s \<and> samp_d s \<noteq> 0"
proof -
  let ?s1 = "sm\<lparr>samp_fct := samp_fct ref, samp_i := samp_i ref, samp_f := samp_f ref, samp_d := samp_d ref\<rparr>"
  from assms have *: "oversample_fill R ((count_points R ?s1)\<lparr>samp_o := samp_o ref\<rparr>) 0 = Returned r s al"
    and o: "0 < samp_o ref" and d: "samp_d ref \<noteq> 0" and fi: "samp_i ref \<le> samp_f ref"
    by (auto simp: makesample1_def Let_def split: if_splits)
  from oversample_fill_spaced [OF * o] d fi show ?thesis by simp
qed

text \<open>The count and the two ends of the block, for any rounding.\<close>

lemma spaced_ends:
  assumes sp: "spaced R s"
    and n0: "n0 = \<bar>double_to_long (count_value R s)\<bar>"
    and osd: "osd = R (samp_d s / long_to_double R (samp_o s))"
  shows "1 \<le> samp_o s"
    and "samp_n s = (n0 - 1) * samp_o s + 1"
    and "1 \<le> samp_n s"
    and "\<exists>vs. samp_v s = Some vs \<and> int (length vs) = samp_n s \<and> vs ! 0 = samp_i s \<and>
              vs ! nat (samp_n s - 1) =
                (if samp_n s = 1 then samp_i s
                 else R (samp_i s + R (long_to_double R (samp_n s - 1) * osd)))"
proof -
  define vs where "vs = fill_values R (samp_i s) osd (nat (samp_n s))"
  from sp have o: "0 < samp_o s" and n: "samp_n s = (n0 - 1) * samp_o s + 1" and n1: "1 \<le> samp_n s"
    and v: "samp_v s = Some vs"
    by (simp_all add: spaced_def n0 osd vs_def Let_def)
  from o show "1 \<le> samp_o s" by simp
  from n show "samp_n s = (n0 - 1) * samp_o s + 1" .
  from n1 show "1 \<le> samp_n s" .
  have len: "int (length vs) = samp_n s"
    using n1 by (simp add: vs_def length_fill_values)
  have v0: "vs ! 0 = samp_i s"
    using n1 by (simp add: vs_def fill_values_nth)
  have vl: "vs ! nat (samp_n s - 1) =
              (if samp_n s = 1 then samp_i s
               else R (samp_i s + R (long_to_double R (samp_n s - 1) * osd)))"
    using n1 by (simp add: vs_def fill_values_nth)
  from v len v0 vl
  show "\<exists>vs. samp_v s = Some vs \<and> int (length vs) = samp_n s \<and> vs ! 0 = samp_i s \<and>
              vs ! nat (samp_n s - 1) =
                (if samp_n s = 1 then samp_i s
                 else R (samp_i s + R (long_to_double R (samp_n s - 1) * osd)))"
    by blast
qed

text \<open>In exact arithmetic the last value is the initial one plus whole spacings.\<close>

lemma spaced_exact:
  assumes sp: "spaced (\<lambda>x. x) s"
    and q: "q = ((1 + 1 / 10 ^ 8) * samp_f s - samp_i s) / samp_d s"
    and n0: "n0 = \<bar>double_to_long (q + 1)\<bar>" and d: "0 < samp_d s"
  shows "n0 = \<bar>double_to_long (count_value (\<lambda>x. x) s)\<bar>"
    and "\<exists>vs. samp_v s = Some vs \<and>
              vs ! nat (samp_n s - 1) = samp_i s + real_of_int (n0 - 1) * samp_d s"
proof -
  show c: "n0 = \<bar>double_to_long (count_value (\<lambda>x. x) s)\<bar>"
    using d by (simp add: n0 q count_value_def okfinalexcess_def)
  define vs where "vs = fill_values (\<lambda>x. x) (samp_i s) (samp_d s / real_of_int (samp_o s)) (nat (samp_n s))"
  from sp have o: "0 < samp_o s" and n: "samp_n s = (n0 - 1) * samp_o s + 1" and n1: "1 \<le> samp_n s"
    and v: "samp_v s = Some vs"
    by (simp_all add: spaced_def c vs_def Let_def long_to_double_def)
  have "vs ! nat (samp_n s - 1) = samp_i s + real (nat (samp_n s - 1)) * (samp_d s / real_of_int (samp_o s))"
    using n1 by (simp add: vs_def fill_values_nth long_to_double_def)
  also have "real (nat (samp_n s - 1)) = real_of_int (n0 - 1) * real_of_int (samp_o s)"
    using n1 n by simp
  also have "samp_i s + real_of_int (n0 - 1) * real_of_int (samp_o s) * (samp_d s / real_of_int (samp_o s))
      = samp_i s + real_of_int (n0 - 1) * samp_d s"
    using o by simp
  finally have "vs ! nat (samp_n s - 1) = samp_i s + real_of_int (n0 - 1) * samp_d s" .
  with v show "\<exists>vs. samp_v s = Some vs \<and>
              vs ! nat (samp_n s - 1) = samp_i s + real_of_int (n0 - 1) * samp_d s"
    by blast
qed

lemma floor_count:
  assumes d: "0 < (d::real)" and q: "q = (F - i) / d" and q0: "0 \<le> q"
    and n0: "n0 = \<bar>double_to_long (q + 1)\<bar>"
  shows "n0 = \<lfloor>q\<rfloor> + 1"
    and "F - d < i + real_of_int (n0 - 1) * d"
    and "i + real_of_int (n0 - 1) * d \<le> F"
proof -
  have fl: "0 \<le> \<lfloor>q\<rfloor>" using q0 by simp
  have "double_to_long (q + 1) = \<lfloor>q\<rfloor> + 1"
    using q0 by (simp add: double_to_long_def)
  with fl show c: "n0 = \<lfloor>q\<rfloor> + 1"
    by (simp add: n0)
  then have n1: "real_of_int (n0 - 1) = real_of_int \<lfloor>q\<rfloor>" by simp
  have qd: "q * d = F - i" using d by (simp add: q)
  have "real_of_int \<lfloor>q\<rfloor> * d \<le> q * d"
    using d by (simp add: mult_right_mono)
  with qd n1 show "i + real_of_int (n0 - 1) * d \<le> F"
    by simp
  have "q - 1 < real_of_int \<lfloor>q\<rfloor>" by linarith
  then have "(q - 1) * d < real_of_int \<lfloor>q\<rfloor> * d"
    using d by (simp add: mult_strict_right_mono)
  with qd n1 show "F - d < i + real_of_int (n0 - 1) * d"
    by (simp add: algebra_simps)
qed

text \<open>
  Runs in binary64 arithmetic that the examples below use. The first is
  \<^verbatim>\<open>makesample1\<close> with initial value 0, spacing 0.5, oversampling 1 and the final
  value \<open>1125899895583625 / 2\<^sup>4\<^sup>9\<close>, a little below 2: the product with
  \<open>1 + 1e-8\<close> rounds to \<open>2 - 2\<^sup>-\<^sup>5\<^sup>2\<close>, and the sum of the quotient and 1 rounds to
  5. The others are \<^verbatim>\<open>makesample\<close> with the hints 1, 2, spacing 0.5 or 0.625 and
  oversampling 2, and \<^verbatim>\<open>makesample\<close> with the hints 2, 1 and the spacing \<open>-0.5\<close>
  of the reference.
\<close>

lemma count_value_below_two:
  "count_value binary64
     \<lparr>samp_n = n, samp_d = 1 / 2, samp_i = 0, samp_f = 1125899895583625 / 562949953421312,
      samp_o = ov, samp_v = v, samp_fct = fct\<rparr> = 5"
  by (simp add: count_value_def okfinalexcess_def binary64_excess binary64_counts)

lemma count_value_half:
  "count_value binary64
     \<lparr>samp_n = n, samp_d = 1 / 2, samp_i = 1, samp_f = 2, samp_o = ov, samp_v = v, samp_fct = fct\<rparr>
   = 844424941390967 / 281474976710656"
  by (simp add: count_value_def okfinalexcess_def binary64_excess binary64_counts)

lemma count_value_five_eighths:
  "count_value binary64
     \<lparr>samp_n = n, samp_d = 5 / 8, samp_i = 1, samp_f = 2, samp_o = ov, samp_v = v, samp_fct = fct\<rparr>
   = 2927339793819619 / 1125899906842624"
  by (simp add: count_value_def okfinalexcess_def binary64_excess binary64_counts)

lemma count_value_descending:
  "count_value binary64
     \<lparr>samp_n = n, samp_d = - (1 / 2), samp_i = 2, samp_f = 1, samp_o = ov, samp_v = v, samp_fct = fct\<rparr>
   = 1688849871522935 / 562949953421312"
  by (simp add: count_value_def okfinalexcess_def binary64_excess binary64_counts)

lemma fill_below_two: "fill_values binary64 0 (1 / 2) 5 = [0, 1 / 2, 1, 3 / 2, 2]"
  by (simp add: fill_values_def fill_stores_def store_def long_to_double_def eval_nat_numeral
        binary64_small binary64_dyadic)

lemma fill_half: "fill_values binary64 1 (1 / 4) 5 = [1, 5 / 4, 3 / 2, 7 / 4, 2]"
  by (simp add: fill_values_def fill_stores_def store_def long_to_double_def eval_nat_numeral
        binary64_small binary64_dyadic)

lemma fill_five_eighths: "fill_values binary64 1 (5 / 16) 3 = [1, 21 / 16, 13 / 8]"
  by (simp add: fill_values_def fill_stores_def store_def long_to_double_def eval_nat_numeral
        binary64_small binary64_dyadic)

lemma fill_descending: "fill_values binary64 2 (- (1 / 2)) 3 = [2, 3 / 2, 1]"
  by (simp add: fill_values_def fill_stores_def store_def long_to_double_def eval_nat_numeral
        binary64_small binary64_dyadic)

lemma run_below_two:
  "makesample1 binary64 unset
     (unset\<lparr>samp_d := 1 / 2, samp_f := 1125899895583625 / 562949953421312, samp_o := 1, samp_fct := 1\<rparr>)
   = Returned 0 \<lparr>samp_n = 5, samp_d = 1 / 2, samp_i = 0, samp_f = 1125899895583625 / 562949953421312,
                  samp_o = 1, samp_v = Some [0, 1 / 2, 1, 3 / 2, 2], samp_fct = 1\<rparr> [5]"
  by (simp add: makesample1_def unset_def count_points_def count_value_below_two double_to_long_def
        oversample_fill_def long_to_double_def binary64_small fill_below_two Let_def)

lemma run_half:
  "makesample binary64 True unset
     (unset\<lparr>samp_d := 1 / 2, samp_i := 1, samp_f := 2, samp_o := 2, samp_fct := 1\<rparr>) unset
   = Returned 0 \<lparr>samp_n = 5, samp_d = 1 / 2, samp_i = 1, samp_f = 2, samp_o = 2,
                  samp_v = Some [1, 5 / 4, 3 / 2, 7 / 4, 2], samp_fct = 1\<rparr> [5]"
  by (simp add: makesample_def range_and_fill_def unset_def count_points_def count_value_half
        double_to_long_def oversample_fill_def long_to_double_def binary64_small fill_half Let_def)

lemma run_five_eighths:
  "makesample binary64 True unset
     (unset\<lparr>samp_d := 5 / 8, samp_i := 1, samp_f := 2, samp_o := 2, samp_fct := 1\<rparr>) unset
   = Returned 0 \<lparr>samp_n = 3, samp_d = 5 / 8, samp_i = 1, samp_f = 2, samp_o = 2,
                  samp_v = Some [1, 21 / 16, 13 / 8], samp_fct = 1\<rparr> [3]"
  by (simp add: makesample_def range_and_fill_def unset_def count_points_def count_value_five_eighths
        double_to_long_def oversample_fill_def long_to_double_def binary64_small binary64_dyadic
        fill_five_eighths Let_def)

lemma run_descending:
  "makesample binary64 True unset (unset\<lparr>samp_i := 2, samp_f := 1\<rparr>)
     (unset\<lparr>samp_d := - (1 / 2), samp_o := 1\<rparr>)
   = Returned 0 \<lparr>samp_n = 3, samp_d = - (1 / 2), samp_i = 2, samp_f = 1, samp_o = 1,
                  samp_v = Some [2, 3 / 2, 1], samp_fct = 0\<rparr> [3]"
  by (simp add: makesample_def range_and_fill_def unset_def count_points_def count_value_descending
        double_to_long_def oversample_fill_def long_to_double_def binary64_small binary64_dyadic
        fill_descending Let_def)

text \<open>
  Claim C1, as the code has it. After a successful run of \<^verbatim>\<open>makesample\<close> or
  \<^verbatim>\<open>makesample1\<close> with positive spacing, the oversampling is at least 1; the
  count before oversampling is the magnitude of the value of
  \<^verbatim>\<open>((1.0+okfinalexcess)*f - i)/d + 1\<close>, computed with every operation rounded, with
  its fraction discarded; the final count is that count less one, times the
  oversampling, plus one; the block holds as many values, the first is the initial
  value itself, and the last is the rounded sum of the initial value and the rounded
  product of the last index and the oversampled spacing. In exact arithmetic the count
  before oversampling is the magnitude of \<open>q + 1\<close> with its fraction discarded, where
  \<open>q = (final (1 + 1e-8) - initial) / spacing\<close>, and the last value is the initial
  value plus the count before oversampling less one, times the spacing; for a final
  value that is not negative that count is \<open>\<lfloor>q\<rfloor> + 1\<close>, and the last value is at
  most \<open>final (1 + 1e-8)\<close> and above it less the spacing.
\<close>

theorem grid_count_and_ends:
  assumes run: "makesample R A sm hint ref = Returned r s al \<or> makesample1 R sm ref = Returned r s al"
    and r: "0 \<le> r" and d: "0 < samp_d s"
  shows "1 \<le> samp_o s \<and>
    (let n0 = \<bar>double_to_long (count_value R s)\<bar>;
         osd = R (samp_d s / long_to_double R (samp_o s))
     in samp_n s = (n0 - 1) * samp_o s + 1 \<and> 1 \<le> samp_n s \<and>
        (\<exists>vs. samp_v s = Some vs \<and> int (length vs) = samp_n s \<and> vs ! 0 = samp_i s \<and>
              vs ! nat (samp_n s - 1) =
                (if samp_n s = 1 then samp_i s
                 else R (samp_i s + R (long_to_double R (samp_n s - 1) * osd)))) \<and>
        ((\<forall>x. R x = x) \<longrightarrow>
           (let q = ((1 + 1 / 10 ^ 8) * samp_f s - samp_i s) / samp_d s
            in n0 = \<bar>double_to_long (q + 1)\<bar> \<and>
               (\<exists>vs. samp_v s = Some vs \<and>
                     vs ! nat (samp_n s - 1) = samp_i s + real_of_int (n0 - 1) * samp_d s) \<and>
               (0 \<le> samp_f s \<longrightarrow>
                  n0 = \<lfloor>q\<rfloor> + 1 \<and>
                  (1 + 1 / 10 ^ 8) * samp_f s - samp_d s < samp_i s + real_of_int (n0 - 1) * samp_d s \<and>
                  samp_i s + real_of_int (n0 - 1) * samp_d s \<le> (1 + 1 / 10 ^ 8) * samp_f s))))"
proof -
  define n0 where "n0 = \<bar>double_to_long (count_value R s)\<bar>"
  define osd where "osd = R (samp_d s / long_to_double R (samp_o s))"
  define q where "q = ((1 + 1 / 10 ^ 8) * samp_f s - samp_i s) / samp_d s"
  define m0 where "m0 = \<bar>double_to_long (q + 1)\<bar>"
  from run r d have sp: "spaced R s" and fi: "samp_i s \<le> samp_f s"
    using makesample_spaced [of R A sm hint ref r s al] makesample1_spaced [of R sm ref r s al]
    by auto
  note ends = spaced_ends [OF sp n0_def osd_def]
  have exact: "n0 = m0 \<and>
      (\<exists>vs. samp_v s = Some vs \<and>
            vs ! nat (samp_n s - 1) = samp_i s + real_of_int (n0 - 1) * samp_d s) \<and>
      (0 \<le> samp_f s \<longrightarrow>
         n0 = \<lfloor>q\<rfloor> + 1 \<and>
         (1 + 1 / 10 ^ 8) * samp_f s - samp_d s < samp_i s + real_of_int (n0 - 1) * samp_d s \<and>
         samp_i s + real_of_int (n0 - 1) * samp_d s \<le> (1 + 1 / 10 ^ 8) * samp_f s)"
    if id: "\<forall>x. R x = x"
  proof -
    from id have R: "R = (\<lambda>x. x)" by auto
    from sp have sp': "spaced (\<lambda>x. x) s" by (simp add: R)
    note ex = spaced_exact [OF sp' q_def m0_def d]
    from ex(1) have eq: "n0 = m0" by (simp add: n0_def R)
    have fl: "m0 = \<lfloor>q\<rfloor> + 1 \<and>
           (1 + 1 / 10 ^ 8) * samp_f s - samp_d s < samp_i s + real_of_int (m0 - 1) * samp_d s \<and>
           samp_i s + real_of_int (m0 - 1) * samp_d s \<le> (1 + 1 / 10 ^ 8) * samp_f s"
      if f: "0 \<le> samp_f s"
    proof -
      have "samp_f s \<le> (1 + 1 / 10 ^ 8) * samp_f s"
        using f by (simp add: algebra_simps)
      with fi d have "0 \<le> q" by (simp add: q_def)
      from floor_count [OF d q_def this m0_def] show ?thesis by blast
    qed
    from ex(2) fl show ?thesis
      unfolding eq by blast
  qed
  from ends exact show ?thesis
    unfolding Let_def n0_def [symmetric] osd_def [symmetric] q_def [symmetric] m0_def [symmetric]
    by blast
qed

theorem grid_count_and_ends_witness:
  "makesample1 binary64 unset
     (unset\<lparr>samp_d := 1 / 2, samp_f := 1125899895583625 / 562949953421312, samp_o := 1, samp_fct := 1\<rparr>)
     = Returned 0 \<lparr>samp_n = 5, samp_d = 1 / 2, samp_i = 0, samp_f = 1125899895583625 / 562949953421312,
                    samp_o = 1, samp_v = Some [0, 1 / 2, 1, 3 / 2, 2], samp_fct = 1\<rparr> [5] \<and>
   \<bar>double_to_long (count_value binary64
       \<lparr>samp_n = 5, samp_d = 1 / 2, samp_i = 0, samp_f = 1125899895583625 / 562949953421312,
        samp_o = 1, samp_v = Some [0, 1 / 2, 1, 3 / 2, 2], samp_fct = 1\<rparr>)\<bar> = 5 \<and>
   \<bar>double_to_long (((1 + 1 / 10 ^ 8) * (1125899895583625 / 562949953421312) - 0) / (1 / 2) + 1)\<bar> = 4 \<and>
   [0, 1 / 2, 1, 3 / 2, 2::real] ! 4 = binary64 (0 + binary64 (long_to_double binary64 4 * binary64 ((1 / 2) / long_to_double binary64 1))) \<and>
   makesample (\<lambda>x. x) True unset (unset\<lparr>samp_d := 1 / 2, samp_i := 1, samp_f := 2, samp_o := 2, samp_fct := 1\<rparr>) unset
     = Returned 0 \<lparr>samp_n = 5, samp_d = 1 / 2, samp_i = 1, samp_f = 2, samp_o = 2,
                    samp_v = Some [1, 5 / 4, 3 / 2, 7 / 4, 2], samp_fct = 1\<rparr> [5] \<and>
   \<bar>double_to_long (((1 + 1 / 10 ^ 8) * 2 - 1) / (1 / 2) + 1)\<bar> = 3 \<and>
   (5::int) = (3 - 1) * 2 + 1 \<and>
   [1, 5 / 4, 3 / 2, 7 / 4, 2::real] ! 0 = 1 \<and>
   [1, 5 / 4, 3 / 2, 7 / 4, 2::real] ! 4 = 1 + real_of_int (3 - 1) * (1 / 2) \<and>
   (1 + 1 / 10 ^ 8) * 2 - 1 / 2 < (1::real) + real_of_int (3 - 1) * (1 / 2) \<and>
   (1::real) + real_of_int (3 - 1) * (1 / 2) \<le> (1 + 1 / 10 ^ 8) * 2"
proof -
  have run: "makesample (\<lambda>x. x) True unset (unset\<lparr>samp_d := 1 / 2, samp_i := 1, samp_f := 2, samp_o := 2, samp_fct := 1\<rparr>) unset
     = Returned 0 \<lparr>samp_n = 5, samp_d = 1 / 2, samp_i = 1, samp_f = 2, samp_o = 2,
                    samp_v = Some [1, 5 / 4, 3 / 2, 7 / 4, 2], samp_fct = 1\<rparr> [5]"
    by code_simp
  have n0: "\<bar>double_to_long (((1 + 1 / 10 ^ 8) * 2 - 1) / (1 / 2) + 1)\<bar> = 3"
    by (simp add: double_to_long_def)
  have m0: "\<bar>double_to_long (((1 + 1 / 10 ^ 8) * (1125899895583625 / 562949953421312) - 0) / (1 / 2) + 1)\<bar> = 4"
    by (simp add: double_to_long_def)
  have c: "\<bar>double_to_long (count_value binary64
       \<lparr>samp_n = 5, samp_d = 1 / 2, samp_i = 0, samp_f = 1125899895583625 / 562949953421312,
        samp_o = 1, samp_v = Some [0, 1 / 2, 1, 3 / 2, 2], samp_fct = 1\<rparr>)\<bar> = 5"
    by (simp add: count_value_below_two double_to_long_def)
  have l: "binary64 (0 + binary64 (long_to_double binary64 4 * binary64 ((1 / 2) / long_to_double binary64 1))) = 2"
    by (simp add: long_to_double_def binary64_small)
  from grid_count_and_ends [OF disjI2, OF run_below_two] grid_count_and_ends [OF disjI1, OF run]
    run_below_two run n0 m0 c l
  show ?thesis
    by (simp add: Let_def)
qed

text \<open>
  The count is not the rounded quotient plus one, and the last value can be farther from
  the final value than the oversampled spacing: in binary64 arithmetic, with initial 1,
  final 2, spacing 0.625 and oversampling 2 the run gives 3 points, 1, 1.3125 and 1.625,
  where rounding the quotient gives 5 points, and 1.625 is 0.375 away from 2.
\<close>

theorem grid_count_counterexample:
  "makesample binary64 True unset (unset\<lparr>samp_d := 5 / 8, samp_i := 1, samp_f := 2, samp_o := 2, samp_fct := 1\<rparr>) unset
     = Returned 0 \<lparr>samp_n = 3, samp_d = 5 / 8, samp_i = 1, samp_f = 2, samp_o = 2,
                    samp_v = Some [1, 21 / 16, 13 / 8], samp_fct = 1\<rparr> [3] \<and>
   (round (((2::real) * (1 + 1 / 10 ^ 8) - 1) / (5 / 8)) + 1 - 1) * 2 + 1 = 5 \<and>
   \<not> \<bar>[1, 21 / 16, 13 / 8] ! 2 - (2::real)\<bar> \<le> (5 / 8) / 2"
proof -
  have "round (((2::real) * (1 + 1 / 10 ^ 8) - 1) / (5 / 8)) = 2"
    by (simp add: round_def)
  with run_five_eighths show ?thesis by simp
qed

text \<open>
  The rounding of the operations can also take a point away: with initial 999999990,
  final 1000000000 and spacing 1 the product \<open>(1 + 1e-8) * final\<close> rounds to a
  number just below 1000000010, and the count before oversampling is 20 in binary64
  arithmetic and 21 in exact arithmetic.
\<close>

lemma count_near_billion:
  "double_to_long (count_value binary64
     \<lparr>samp_n = n, samp_d = 1, samp_i = 999999990, samp_f = 1000000000,
      samp_o = ov, samp_v = v, samp_fct = fct\<rparr>) = 20"
  "double_to_long (count_value (\<lambda>x. x)
     \<lparr>samp_n = n, samp_d = 1, samp_i = 999999990, samp_f = 1000000000,
      samp_o = ov, samp_v = v, samp_fct = fct\<rparr>) = 21"
  by (simp_all add: count_value_def okfinalexcess_def double_to_long_def
        binary64_excess binary64_near_billion)

lemma loop_stores_values:
  "p \<in> set (loop_stores R si osd m) \<Longrightarrow>
   fst p \<noteq> 0 \<and> snd p = R (si + R (long_to_double R (int (fst p)) * osd))"
  by (induction m) auto

lemma fill_stores_values:
  "p \<in> set (fill_stores R si osd n) \<Longrightarrow>
   snd p = (if fst p = 0 then si else R (si + R (long_to_double R (int (fst p)) * osd)))"
  by (auto simp: fill_stores_def dest: loop_stores_values)

text \<open>
  Claim C2, as the code has it. After a successful run with a spacing, the block is the
  zeroed block with the stores of the filling applied in their order: the first store
  puts the initial value at index 0, the others go from the last index down to index 1,
  and every store at an index \<open>k\<close> above 0 writes the rounded sum of the initial value
  and the rounded product of \<open>k\<close> and the oversampled spacing. So the value at index 0
  is the initial value and the value at every other index \<open>k\<close> is that sum; in exact
  arithmetic every store at an index \<open>k\<close>, and the value at every index \<open>k\<close>, is the
  initial value plus \<open>k\<close> times the oversampled spacing.
\<close>

theorem values_filled_backward:
  assumes run: "makesample R A sm hint ref = Returned r s al \<or> makesample1 R sm ref = Returned r s al"
    and r: "0 \<le> r" and d: "samp_d s \<noteq> 0"
  shows "let n = nat (samp_n s); osd = R (samp_d s / long_to_double R (samp_o s))
         in samp_v s = Some (foldl store (replicate n 0) (fill_stores R (samp_i s) osd n)) \<and>
            map fst (fill_stores R (samp_i s) osd n) = 0 # rev [1..<n] \<and>
            (\<forall>p \<in> set (fill_stores R (samp_i s) osd n).
               snd p = (if fst p = 0 then samp_i s
                        else R (samp_i s + R (long_to_double R (int (fst p)) * osd)))) \<and>
            (\<forall>k<n. the (samp_v s) ! k =
               (if k = 0 then samp_i s else R (samp_i s + R (long_to_double R (int k) * osd)))) \<and>
            ((\<forall>x. R x = x) \<longrightarrow>
               (\<forall>p \<in> set (fill_stores R (samp_i s) osd n).
                  snd p = samp_i s + real (fst p) * (samp_d s / real_of_int (samp_o s))) \<and>
               (\<forall>k<n. the (samp_v s) ! k = samp_i s + real k * (samp_d s / real_of_int (samp_o s))))"
proof -
  define n where "n = nat (samp_n s)"
  define osd where "osd = R (samp_d s / long_to_double R (samp_o s))"
  from run r d have "spaced R s"
    using makesample_spaced [of R A sm hint ref r s al] makesample1_spaced [of R sm ref r s al]
    by auto
  then have v: "samp_v s = Some (fill_values R (samp_i s) osd n)"
    by (simp add: spaced_def Let_def n_def osd_def)
  have stores: "\<forall>p \<in> set (fill_stores R (samp_i s) osd n).
      snd p = (if fst p = 0 then samp_i s else R (samp_i s + R (long_to_double R (int (fst p)) * osd)))"
    by (simp add: fill_stores_values)
  have vals: "\<forall>k<n. the (samp_v s) ! k =
      (if k = 0 then samp_i s else R (samp_i s + R (long_to_double R (int k) * osd)))"
    by (simp add: v fill_values_nth)
  have exact: "(\<forall>p \<in> set (fill_stores R (samp_i s) osd n).
                  snd p = samp_i s + real (fst p) * (samp_d s / real_of_int (samp_o s))) \<and>
               (\<forall>k<n. the (samp_v s) ! k = samp_i s + real k * (samp_d s / real_of_int (samp_o s)))"
    if id: "\<forall>x. R x = x"
  proof -
    from id have o: "osd = samp_d s / real_of_int (samp_o s)"
      by (simp add: osd_def long_to_double_def)
    from stores id have "\<forall>p \<in> set (fill_stores R (samp_i s) osd n).
        snd p = samp_i s + real (fst p) * (samp_d s / real_of_int (samp_o s))"
      by (simp add: long_to_double_def o)
    moreover from vals id have "\<forall>k<n. the (samp_v s) ! k = samp_i s + real k * (samp_d s / real_of_int (samp_o s))"
      by (simp add: long_to_double_def o)
    ultimately show ?thesis ..
  qed
  from v stores vals exact show ?thesis
    unfolding Let_def n_def [symmetric] osd_def [symmetric]
    by (simp add: fill_stores_indexes fill_values_def)
qed

theorem values_filled_backward_witness:
  "makesample binary64 True unset (unset\<lparr>samp_d := 1 / 2, samp_i := 1, samp_f := 2, samp_o := 2, samp_fct := 1\<rparr>) unset
     = Returned 0 \<lparr>samp_n = 5, samp_d = 1 / 2, samp_i = 1, samp_f = 2, samp_o = 2,
                    samp_v = Some [1, 5 / 4, 3 / 2, 7 / 4, 2], samp_fct = 1\<rparr> [5] \<and>
   map fst (fill_stores binary64 1 (1 / 4) 5) = [0, 4, 3, 2, 1] \<and>
   foldl store (replicate 5 0) (fill_stores binary64 1 (1 / 4) 5) = [1, 5 / 4, 3 / 2, 7 / 4, 2] \<and>
   makesample (\<lambda>x. x) True unset (unset\<lparr>samp_d := 3 / 5, samp_i := 1, samp_f := 2, samp_o := 2, samp_fct := 1\<rparr>) unset
     = Returned 0 \<lparr>samp_n = 3, samp_d = 3 / 5, samp_i = 1, samp_f = 2, samp_o = 2,
                    samp_v = Some [1, 13 / 10, 8 / 5], samp_fct = 1\<rparr> [3] \<and>
   [1, 13 / 10, 8 / 5] ! 2 = (1::real) + real 2 * ((3 / 5) / real_of_int 2)"
proof -
  have rv: "rev [1..<5] = [4, 3, 2, 1::nat]"
    by (simp add: upt_rec)
  have run: "makesample (\<lambda>x. x) True unset (unset\<lparr>samp_d := 3 / 5, samp_i := 1, samp_f := 2, samp_o := 2, samp_fct := 1\<rparr>) unset
     = Returned 0 \<lparr>samp_n = 3, samp_d = 3 / 5, samp_i = 1, samp_f = 2, samp_o = 2,
                    samp_v = Some [1, 13 / 10, 8 / 5], samp_fct = 1\<rparr> [3]"
    by code_simp
  from values_filled_backward [OF disjI1, OF run_half] rv
  have A: "map fst (fill_stores binary64 1 (1 / 4) 5) = [0, 4, 3, 2, 1] \<and>
      foldl store (replicate 5 0) (fill_stores binary64 1 (1 / 4) 5) = [1, 5 / 4, 3 / 2, 7 / 4, 2]"
    by (simp add: Let_def long_to_double_def binary64_small)
  from values_filled_backward [OF disjI1, OF run]
  have B: "[1, 13 / 10, 8 / 5] ! 2 = (1::real) + real 2 * ((3 / 5) / real_of_int 2)"
    by (simp add: Let_def long_to_double_def fill_stores_def store_def eval_nat_numeral)
  from A B run_half run show ?thesis
    by simp
qed

text \<open>
  The last value is not the initial one, and the value at an index is not the initial
  value plus \<open>n - 1 - index\<close> steps: in binary64 arithmetic, with initial 1, final 2,
  spacing 0.5 and oversampling 2 the values are 1, 1.25, 1.5, 1.75, 2.
\<close>

theorem values_order_counterexample:
  "makesample binary64 True unset (unset\<lparr>samp_d := 1 / 2, samp_i := 1, samp_f := 2, samp_o := 2, samp_fct := 1\<rparr>) unset
     = Returned 0 \<lparr>samp_n = 5, samp_d = 1 / 2, samp_i = 1, samp_f = 2, samp_o = 2,
                    samp_v = Some [1, 5 / 4, 3 / 2, 7 / 4, 2], samp_fct = 1\<rparr> [5] \<and>
   [1, 5 / 4, 3 / 2, 7 / 4, 2] ! (5 - 1) \<noteq> (1::real) \<and>
   [1, 5 / 4, 3 / 2, 7 / 4, 2] ! 0 \<noteq> (1::real) + real (5 - 1 - 0) * ((1 / 2) / 2)"
  using run_half by simp

text \<open>
  Claim C9, as the code has it. When the hinted final value is positive and below the
  hinted initial value, and the spacing that \<^verbatim>\<open>makesample\<close> adopts is positive
  (the hinted one, or the one of the reference when none is hinted), the call returns
  \<open>-3\<close> without any \<^verbatim>\<open>calloc\<close>; the output structure has the resolved units
  factor, bounds and spacing, and its count, oversampling and pointer are untouched.
\<close>

theorem inverted_range_rejected:
  assumes "0 < samp_f hint" and "samp_f hint < samp_i hint"
    and "0 < samp_d hint \<or> (samp_d hint = 0 \<and> 0 < samp_d ref)"
  shows "makesample R A sm hint ref =
           Returned (- 3)
             (sm\<lparr>samp_fct := (if samp_fct hint \<le> 0 then samp_fct ref else samp_fct hint),
                 samp_i := samp_i hint, samp_f := samp_f hint,
                 samp_d := (if samp_d hint = 0 then samp_d ref else samp_d hint)\<rparr>) []"
  using assms by (auto simp: makesample_def range_and_fill_def Let_def)

theorem inverted_range_rejected_witness:
  "makesample binary64 True unset (unset\<lparr>samp_d := 1 / 2, samp_i := 2, samp_f := 1, samp_o := 2, samp_fct := 1\<rparr>) unset
     = Returned (- 3) (unset\<lparr>samp_fct := 1, samp_i := 2, samp_f := 1, samp_d := 1 / 2\<rparr>) []"
  using inverted_range_rejected [of "unset\<lparr>samp_d := 1 / 2, samp_i := 2, samp_f := 1, samp_o := 2, samp_fct := 1\<rparr>"
      unset binary64 True unset]
  by simp

text \<open>
  With a negative spacing a final value below the initial one is what the code asks for:
  in binary64 arithmetic, no spacing hinted, the reference spacing \<open>-0.5\<close>, initial 2
  and final 1 give the three values 2, 1.5, 1 in a new block and the code 0.
\<close>

theorem inverted_range_counterexample:
  "0 < samp_f (unset\<lparr>samp_i := 2, samp_f := 1\<rparr>) \<and>
   samp_f (unset\<lparr>samp_i := 2, samp_f := 1\<rparr>) < samp_i (unset\<lparr>samp_i := 2, samp_f := 1\<rparr>) \<and>
   makesample binary64 True unset (unset\<lparr>samp_i := 2, samp_f := 1\<rparr>) (unset\<lparr>samp_d := - (1 / 2), samp_o := 1\<rparr>)
     = Returned 0 \<lparr>samp_n = 3, samp_d = - (1 / 2), samp_i = 2, samp_f = 1, samp_o = 1,
                    samp_v = Some [2, 3 / 2, 1], samp_fct = 0\<rparr> [3]"
  using run_descending by simp


section \<open>Saving and restoring\<close>

lemma fread_values_all: "fread_values (length xs) (map Value xs @ rest) = (xs, rest)"
  by (induction xs) (simp_all add: Let_def)

lemma restsample_arr_reads:
  assumes "0 \<le> samp_n sm" and "samp_n sm \<le> 1000000" and "int (length xs) = samp_n sm"
  shows "restsample_arr True (map Value xs @ rest) sm = (0, sm\<lparr>samp_v := Some xs\<rparr>, rest)"
proof (cases "samp_n sm = 0")
  case True
  with assms show ?thesis by (simp add: restsample_arr_def)
next
  case False
  from assms have "nat (samp_n sm) = length xs" by linarith
  with False assms show ?thesis
    by (simp add: restsample_arr_def Let_def fread_values_all)
qed

text \<open>
  Claim C7. \<^verbatim>\<open>restsample_arr\<close> returns \<open>-2\<close> exactly when the stored count is
  negative, whatever the input and whether or not memory is available; it returns \<open>1\<close>
  for every count above 1000000; and for a count from 0 to 1000000, when \<^verbatim>\<open>calloc\<close>
  returns a block and the input starts with as many values as the count says, it returns 0
  with exactly these values in the block and the input behind them left unread (for the
  count 0 the list \<open>xs\<close> is empty and nothing is read).
\<close>

theorem restsample_arr_codes:
  "(fst (restsample_arr ok inp sm) = - 2 \<longleftrightarrow> samp_n sm < 0) \<and>
   (1000000 < samp_n sm \<longrightarrow> fst (restsample_arr ok inp sm) = 1) \<and>
   (0 \<le> samp_n sm \<and> samp_n sm \<le> 1000000 \<and> int (length xs) = samp_n sm \<longrightarrow>
      restsample_arr True (map Value xs @ rest) sm = (0, sm\<lparr>samp_v := Some xs\<rparr>, rest))"
proof (intro conjI impI)
  show "fst (restsample_arr ok inp sm) = - 2 \<longleftrightarrow> samp_n sm < 0"
    by (simp add: restsample_arr_def Let_def)
  show "fst (restsample_arr ok inp sm) = 1" if "1000000 < samp_n sm"
    using that by (simp add: restsample_arr_def)
  show "restsample_arr True (map Value xs @ rest) sm = (0, sm\<lparr>samp_v := Some xs\<rparr>, rest)"
    if "0 \<le> samp_n sm \<and> samp_n sm \<le> 1000000 \<and> int (length xs) = samp_n sm"
    using that by (simp add: restsample_arr_reads)
qed

theorem restsample_arr_codes_witness:
  "(fst (restsample_arr True [Value 1, Value 2, Value 3]
          \<lparr>samp_n = - 1, samp_d = 1, samp_i = 1, samp_f = 3, samp_o = 1, samp_v = None, samp_fct = 1\<rparr>) = - 2) \<and>
   fst (restsample_arr True [Value 1, Value 2, Value 3]
          \<lparr>samp_n = 2000000, samp_d = 1, samp_i = 1, samp_f = 3, samp_o = 1, samp_v = None, samp_fct = 1\<rparr>) = 1 \<and>
   restsample_arr True [Value 1, Value 2, Value 3]
          \<lparr>samp_n = 2, samp_d = 1, samp_i = 1, samp_f = 2, samp_o = 1, samp_v = None, samp_fct = 1\<rparr>
     = (0, \<lparr>samp_n = 2, samp_d = 1, samp_i = 1, samp_f = 2, samp_o = 1, samp_v = Some [1, 2], samp_fct = 1\<rparr>,
        [Value 3])"
  using restsample_arr_codes [of True "[Value 1, Value 2, Value 3]"
          "\<lparr>samp_n = - 1, samp_d = 1, samp_i = 1, samp_f = 3, samp_o = 1, samp_v = None, samp_fct = 1\<rparr>" "[]" "[]"]
        restsample_arr_codes [of True "[Value 1, Value 2, Value 3]"
          "\<lparr>samp_n = 2000000, samp_d = 1, samp_i = 1, samp_f = 3, samp_o = 1, samp_v = None, samp_fct = 1\<rparr>" "[]" "[]"]
        restsample_arr_codes [of True "[]"
          "\<lparr>samp_n = 2, samp_d = 1, samp_i = 1, samp_f = 2, samp_o = 1, samp_v = None, samp_fct = 1\<rparr>" "[1, 2]" "[Value 3]"]
  by simp

text \<open>
  Claim C8. A sample whose count lies between 0 and 1000000 and whose block holds as many
  values as the count says is written by \<^verbatim>\<open>savesample\<close> as the structure followed
  by the values. \<^verbatim>\<open>restsample\<close> on such a file returns 0 with a structure equal to
  the one written, field by field and value by value, and with the input behind the
  values left unread. The block of the restored structure comes from the values in the
  file and not from the pointer in the structure read: the result is the same whatever
  that pointer \<open>p\<close> is (the file of \<^verbatim>\<open>savesample\<close> is the case \<open>p = samp_v sm\<close>).
\<close>

theorem save_restore_roundtrip:
  assumes "0 \<le> samp_n sm" and "samp_n sm \<le> 1000000"
    and "samp_v sm = Some xs" and "int (length xs) = samp_n sm"
  shows "savesample out sm = Some (out @ Header sm # map Value xs) \<and>
         restsample True (Header sm # map Value xs @ rest) sm0 = (0, sm, rest) \<and>
         restsample True (Header (sm\<lparr>samp_v := p\<rparr>) # map Value xs @ rest) sm0 = (0, sm, rest)"
proof -
  from assms have n: "nat (samp_n sm) = length xs" by linarith
  have save: "savesample out sm = Some (out @ Header sm # map Value xs)"
    using assms n by (auto simp: savesample_def savesample_arr_def)
  have same: "sm\<lparr>samp_v := Some xs\<rparr> = sm"
    using assms(3) by simp
  have "restsample_arr True (map Value xs @ rest) (sm\<lparr>samp_v := q\<rparr>)
          = (0, sm\<lparr>samp_v := q\<rparr>\<lparr>samp_v := Some xs\<rparr>, rest)" for q
    using assms by (intro restsample_arr_reads) simp_all
  then have rest: "restsample True (Header (sm\<lparr>samp_v := q\<rparr>) # map Value xs @ rest) sm0 = (0, sm, rest)" for q
    using same by (simp add: restsample_def)
  from rest [of "Some xs"] same
  have "restsample True (Header sm # map Value xs @ rest) sm0 = (0, sm, rest)"
    by simp
  with save rest [of p] show ?thesis by simp
qed

theorem save_restore_roundtrip_witness:
  "savesample []
     \<lparr>samp_n = 3, samp_d = 1 / 2, samp_i = 1, samp_f = 2, samp_o = 1, samp_v = Some [1, 3 / 2, 2], samp_fct = 1\<rparr>
   = Some [Header \<lparr>samp_n = 3, samp_d = 1 / 2, samp_i = 1, samp_f = 2, samp_o = 1, samp_v = Some [1, 3 / 2, 2], samp_fct = 1\<rparr>,
           Value 1, Value (3 / 2), Value 2] \<and>
   restsample True
     [Header \<lparr>samp_n = 3, samp_d = 1 / 2, samp_i = 1, samp_f = 2, samp_o = 1, samp_v = Some [1, 3 / 2, 2], samp_fct = 1\<rparr>,
      Value 1, Value (3 / 2), Value 2]
     \<lparr>samp_n = 0, samp_d = 0, samp_i = 0, samp_f = 0, samp_o = 0, samp_v = None, samp_fct = 0\<rparr>
   = (0, \<lparr>samp_n = 3, samp_d = 1 / 2, samp_i = 1, samp_f = 2, samp_o = 1, samp_v = Some [1, 3 / 2, 2], samp_fct = 1\<rparr>, []) \<and>
   restsample True
     [Header \<lparr>samp_n = 3, samp_d = 1 / 2, samp_i = 1, samp_f = 2, samp_o = 1, samp_v = None, samp_fct = 1\<rparr>,
      Value 1, Value (3 / 2), Value 2, Value 7]
     \<lparr>samp_n = 0, samp_d = 0, samp_i = 0, samp_f = 0, samp_o = 0, samp_v = None, samp_fct = 0\<rparr>
   = (0, \<lparr>samp_n = 3, samp_d = 1 / 2, samp_i = 1, samp_f = 2, samp_o = 1, samp_v = Some [1, 3 / 2, 2], samp_fct = 1\<rparr>,
      [Value 7])"
  using save_restore_roundtrip [where
      sm = "\<lparr>samp_n = 3, samp_d = 1 / 2, samp_i = 1, samp_f = 2, samp_o = 1, samp_v = Some [1, 3 / 2, 2], samp_fct = 1\<rparr>"
      and xs = "[1, 3 / 2, 2]" and out = "[]" and rest = "[]" and p = None
      and ?sm0.0 = "\<lparr>samp_n = 0, samp_d = 0, samp_i = 0, samp_f = 0, samp_o = 0, samp_v = None, samp_fct = 0\<rparr>"]
    save_restore_roundtrip [where
      sm = "\<lparr>samp_n = 3, samp_d = 1 / 2, samp_i = 1, samp_f = 2, samp_o = 1, samp_v = Some [1, 3 / 2, 2], samp_fct = 1\<rparr>"
      and xs = "[1, 3 / 2, 2]" and out = "[]" and rest = "[Value 7]" and p = None
      and ?sm0.0 = "\<lparr>samp_n = 0, samp_d = 0, samp_i = 0, samp_f = 0, samp_o = 0, samp_v = None, samp_fct = 0\<rparr>"]
  by simp

section \<open>The tridiagonal solver: what it overwrites\<close>

lemma eliminate_step:
  "for_loop (Suc m) (\<lambda>k. tri_eliminate R a c (k + 1)) (d, b) =
     (let s = for_loop m (\<lambda>k. tri_eliminate R a c (k + 1)) (d, b)
      in ((fst s)(int m + 1 := R (fst s (int m + 1) - R (R (a (int m) / fst s (int m)) * c (int m)))),
          (snd s)(int m + 1 := R (snd s (int m + 1) - R (R (a (int m) / fst s (int m)) * snd s (int m))))))"
  by (simp add: tri_eliminate_def Let_def)

lemma eliminate_frame:
  "i < 1 \<or> int m < i \<Longrightarrow>
   fst (for_loop m (\<lambda>k. tri_eliminate R a c (k + 1)) (d, b)) i = d i \<and>
   snd (for_loop m (\<lambda>k. tri_eliminate R a c (k + 1)) (d, b)) i = b i"
proof (induction m)
  case 0
  show ?case by simp
next
  case (Suc m)
  then have "i \<noteq> int m + 1" and "i < 1 \<or> int m < i" by auto
  with Suc.IH show ?case
    unfolding eliminate_step Let_def by simp
qed

lemma eliminate_rows:
  "1 \<le> i \<Longrightarrow> i \<le> int m \<Longrightarrow>
   fst (for_loop m (\<lambda>k. tri_eliminate R a c (k + 1)) (d, b)) i =
     R (d i - R (R (a (i - 1) / fst (for_loop m (\<lambda>k. tri_eliminate R a c (k + 1)) (d, b)) (i - 1)) * c (i - 1))) \<and>
   snd (for_loop m (\<lambda>k. tri_eliminate R a c (k + 1)) (d, b)) i =
     R (b i - R (R (a (i - 1) / fst (for_loop m (\<lambda>k. tri_eliminate R a c (k + 1)) (d, b)) (i - 1))
             * snd (for_loop m (\<lambda>k. tri_eliminate R a c (k + 1)) (d, b)) (i - 1)))"
proof (induction m)
  case 0
  then show ?case by simp
next
  case (Suc m)
  define s where "s = for_loop m (\<lambda>k. tri_eliminate R a c (k + 1)) (d, b)"
  show ?case
  proof (cases "i = int m + 1")
    case True
    have "fst s (int m + 1) = d (int m + 1)" "snd s (int m + 1) = b (int m + 1)"
      using eliminate_frame [of "int m + 1" m R a c d b] by (simp_all add: s_def)
    with True show ?thesis
      unfolding eliminate_step Let_def s_def [symmetric] by simp
  next
    case False
    with Suc.prems have i: "1 \<le> i" "i \<le> int m" by simp_all
    then have ne: "i \<noteq> int m + 1" "i - 1 \<noteq> int m + 1" by simp_all
    from Suc.IH [OF i] ne show ?thesis
      unfolding eliminate_step Let_def s_def [symmetric] by simp
  qed
qed

lemma substitute_frame:
  "j < 1 \<or> int m < j \<Longrightarrow> for_down m (tri_substitute R d c b) e j = e j"
proof (induction m arbitrary: e)
  case 0
  show ?case by simp
next
  case (Suc m)
  then have j: "j < 1 \<or> int m < j" and ne: "j \<noteq> int (Suc m)" by auto
  have "for_down (Suc m) (tri_substitute R d c b) e j =
        for_down m (tri_substitute R d c b) (tri_substitute R d c b (int (Suc m)) e) j"
    by simp
  also have "\<dots> = tri_substitute R d c b (int (Suc m)) e j"
    by (rule Suc.IH) (rule j)
  also have "\<dots> = e j"
    using ne by (simp add: tri_substitute_def)
  finally show ?case .
qed

lemma substitute_rows:
  "1 \<le> j \<Longrightarrow> j \<le> int m \<Longrightarrow>
   for_down m (tri_substitute R d c b) e j =
     R (R (b (j - 1) - R (c (j - 1) * for_down m (tri_substitute R d c b) e (j + 1))) / d (j - 1))"
proof (induction m arbitrary: e)
  case 0
  then show ?case by simp
next
  case (Suc m)
  define e' where "e' = tri_substitute R d c b (int (Suc m)) e"
  have step: "for_down (Suc m) (tri_substitute R d c b) e = for_down m (tri_substitute R d c b) e'"
    by (simp add: e'_def)
  show ?case
  proof (cases "j = int (Suc m)")
    case True
    have "for_down m (tri_substitute R d c b) e' j = e' j"
      and "for_down m (tri_substitute R d c b) e' (j + 1) = e' (j + 1)"
      using True by (simp_all add: substitute_frame)
    moreover have "e' j = R (R (b (j - 1) - R (c (j - 1) * e (j + 1))) / d (j - 1))"
      and "e' (j + 1) = e (j + 1)"
      unfolding e'_def True [symmetric] by (simp_all add: tri_substitute_def)
    ultimately show ?thesis
      unfolding step by simp
  next
    case False
    with Suc.prems have "1 \<le> j" "j \<le> int m" by simp_all
    from Suc.IH [OF this, of e'] show ?thesis
      unfolding step .
  qed
qed

text \<open>What \<^verbatim>\<open>tri\<close> leaves in the arrays \<open>d\<close>, \<open>b\<close> and \<open>e\<close>.\<close>

lemma tri_leaves:
  assumes n: "1 \<le> n" and t: "tri R a d c b e n = (d1, b1, e1)"
  shows "(\<forall>i. 1 \<le> i \<and> i \<le> n \<longrightarrow>
            d1 i = R (d i - R (R (a (i - 1) / d1 (i - 1)) * c (i - 1))) \<and>
            b1 i = R (b i - R (R (a (i - 1) / d1 (i - 1)) * b1 (i - 1)))) \<and>
         (\<forall>i. i < 1 \<or> n < i \<longrightarrow> d1 i = d i \<and> b1 i = b i) \<and>
         e1 0 = 0 \<and> e1 (n + 1) = 0 \<and>
         (\<forall>j. j < 0 \<or> n + 1 < j \<longrightarrow> e1 j = e j) \<and>
         (\<forall>j. 1 \<le> j \<and> j \<le> n \<longrightarrow>
            e1 j = R (R (b1 (j - 1) - R (c (j - 1) * (if j = n then e (n + 1) else e1 (j + 1)))) / d1 (j - 1)))"
proof -
  define s where "s = for_loop (nat n) (\<lambda>k. tri_eliminate R a c (k + 1)) (d, b)"
  define e0 where "e0 = e(n - 1 := R (snd s (n - 1) / fst s (n - 1)))"
  define e2 where "e2 = for_down (nat n) (tri_substitute R (fst s) c (snd s)) e0"
  from t have d1: "d1 = fst s" and b1: "b1 = snd s" and e1: "e1 = e2(0 := 0, n + 1 := 0)"
    by (auto simp: tri_def Let_def s_def e2_def e0_def)
  have nn: "int (nat n) = n" using n by simp
  have rows: "d1 i = R (d i - R (R (a (i - 1) / d1 (i - 1)) * c (i - 1))) \<and>
              b1 i = R (b i - R (R (a (i - 1) / d1 (i - 1)) * b1 (i - 1)))" if "1 \<le> i \<and> i \<le> n" for i
    using that n eliminate_rows [of i "nat n" R a c d b] by (simp add: d1 b1 s_def)
  have frame: "d1 i = d i \<and> b1 i = b i" if "i < 1 \<or> n < i" for i
    using that n eliminate_frame [of i "nat n" R a c d b] by (simp add: d1 b1 s_def)
  have eframe: "e1 j = e j" if "j < 0 \<or> n + 1 < j" for j
  proof -
    from that n have "e1 j = e2 j" by (auto simp: e1)
    also from that have "\<dots> = e0 j"
      unfolding e2_def by (intro substitute_frame) (auto simp: nn)
    also from that n have "\<dots> = e j" by (auto simp: e0_def)
    finally show ?thesis .
  qed
  have top: "e2 (n + 1) = e (n + 1)"
  proof -
    have "e2 (n + 1) = e0 (n + 1)"
      unfolding e2_def by (intro substitute_frame) (simp add: nn)
    then show ?thesis by (simp add: e0_def)
  qed
  have erows: "e1 j = R (R (b1 (j - 1) - R (c (j - 1) * (if j = n then e (n + 1) else e1 (j + 1)))) / d1 (j - 1))"
    if j: "1 \<le> j \<and> j \<le> n" for j
  proof -
    from j have "e1 j = e2 j" by (simp add: e1)
    also have "\<dots> = R (R (b1 (j - 1) - R (c (j - 1) * e2 (j + 1))) / d1 (j - 1))"
      unfolding e2_def d1 b1 using j by (intro substitute_rows) (simp_all add: nn)
    also have "e2 (j + 1) = (if j = n then e (n + 1) else e1 (j + 1))"
      using j top by (auto simp: e1)
    finally show ?thesis .
  qed
  from rows frame eframe erows show ?thesis
    by (simp add: e1)
qed

lemma tri_solves:
  assumes n: "1 \<le> n" and t: "tri (\<lambda>x. x) a d c b e n = (d1, b1, e1)"
    and piv: "\<And>i. 0 \<le> i \<Longrightarrow> i \<le> n - 1 \<Longrightarrow> d1 i \<noteq> 0"
    and top: "e (n + 1) = 0"
    and r: "0 \<le> r" "r \<le> n - 1"
  shows "a (r - 1) * e1 r + d r * e1 (r + 1) + c r * e1 (r + 2) = b r"
proof -
  note L = tri_leaves [OF n t]
  from L have rows: "\<And>i. 1 \<le> i \<Longrightarrow> i \<le> n \<Longrightarrow>
      d1 i = d i - a (i - 1) / d1 (i - 1) * c (i - 1) \<and>
      b1 i = b i - a (i - 1) / d1 (i - 1) * b1 (i - 1)"
    and frame: "\<And>i. i < 1 \<or> n < i \<Longrightarrow> d1 i = d i \<and> b1 i = b i"
    and ends: "e1 0 = 0" "e1 (n + 1) = 0"
    and erows: "\<And>j. 1 \<le> j \<Longrightarrow> j \<le> n \<Longrightarrow>
      e1 j = (b1 (j - 1) - c (j - 1) * (if j = n then e (n + 1) else e1 (j + 1))) / d1 (j - 1)"
    by blast+
  have upper: "d1 k * e1 (k + 1) + c k * e1 (k + 2) = b1 k" if k: "0 \<le> k" "k \<le> n - 1" for k
  proof -
    have "(if k + 1 = n then e (n + 1) else e1 (k + 1 + 1)) = e1 (k + 2)"
      using top ends by (auto simp: add.commute)
    with erows [of "k + 1"] k have "e1 (k + 1) = (b1 k - c k * e1 (k + 2)) / d1 k"
      by simp
    with piv [OF k] show ?thesis
      by (simp add: field_simps)
  qed
  show ?thesis
  proof (cases "r = 0")
    case True
    with upper [of 0] frame [of 0] ends n show ?thesis by simp
  next
    case False
    with r have r1: "1 \<le> r" "r \<le> n" "0 \<le> r - 1" "r - 1 \<le> n - 1" by simp_all
    define m where "m = a (r - 1) / d1 (r - 1)"
    have md: "m * d1 (r - 1) = a (r - 1)"
      using piv [OF r1(3,4)] by (simp add: m_def)
    from rows [OF r1(1,2)] have dr: "d1 r = d r - m * c (r - 1)" and br: "b1 r = b r - m * b1 (r - 1)"
      by (simp_all add: m_def)
    have u1: "d1 (r - 1) * e1 r + c (r - 1) * e1 (r + 1) = b1 (r - 1)"
      using upper [OF r1(3,4)] by (simp add: add.commute)
    from upper [OF r] have u2: "d1 r * e1 (r + 1) + c r * e1 (r + 2) = b1 r" .
    have "a (r - 1) * e1 r = m * (b1 (r - 1) - c (r - 1) * e1 (r + 1))"
      unfolding u1 [symmetric] md [symmetric] by (simp add: algebra_simps)
    moreover have "d r * e1 (r + 1) + c r * e1 (r + 2) = b r - m * b1 (r - 1) + m * c (r - 1) * e1 (r + 1)"
      using u2 unfolding dr br by (simp add: algebra_simps)
    ultimately show ?thesis
      by (simp add: algebra_simps)
  qed
qed

text \<open>
  Claim C10, as the code has it. A call of \<^verbatim>\<open>tri\<close> with \<open>n \<ge> 1\<close> stores
  into \<open>d[1..n]\<close> and \<open>b[1..n]\<close> the eliminated values
  \<open>d[i] - a[i-1]/d[i-1] * c[i-1]\<close> and \<open>b[i] - a[i-1]/d[i-1] * b[i-1]\<close> (with the
  entries at \<open>i - 1\<close> as already eliminated, every operation rounded by \<open>R\<close>), and
  leaves every other entry of \<open>d\<close> and \<open>b\<close> as it was; an entry may receive the
  value that it had. The buffer \<open>e\<close> has 0 at the indexes 0 and \<open>n + 1\<close>, the
  back-substituted values at the indexes 1 to \<open>n\<close> (the round for \<open>n\<close> reads the
  value that the caller left at \<open>e[n+1]\<close>), and is unchanged below index 0 and above
  \<open>n + 1\<close>. The arrays \<open>a\<close> and \<open>c\<close> are only read. When the arithmetic is
  exact, no pivot \<open>d[0..n-1]\<close> is 0 after the elimination and the caller left 0 at
  \<open>e[n+1]\<close>, the values \<open>e[1..n]\<close> solve the system of the arrays as they went in:
  \<open>a[r-1] * e[r] + d[r] * e[r+1] + c[r] * e[r+2] = b[r]\<close> for \<open>r = 0, ..., n - 1\<close>.
\<close>

theorem tri_overwrites:
  assumes n: "1 \<le> n" and t: "tri R a d c b e n = (d1, b1, e1)"
  shows "(\<forall>i. 1 \<le> i \<and> i \<le> n \<longrightarrow>
            d1 i = R (d i - R (R (a (i - 1) / d1 (i - 1)) * c (i - 1))) \<and>
            b1 i = R (b i - R (R (a (i - 1) / d1 (i - 1)) * b1 (i - 1)))) \<and>
         (\<forall>i. i < 1 \<or> n < i \<longrightarrow> d1 i = d i \<and> b1 i = b i) \<and>
         e1 0 = 0 \<and> e1 (n + 1) = 0 \<and>
         (\<forall>j. j < 0 \<or> n + 1 < j \<longrightarrow> e1 j = e j) \<and>
         (\<forall>j. 1 \<le> j \<and> j \<le> n \<longrightarrow>
            e1 j = R (R (b1 (j - 1) - R (c (j - 1) * (if j = n then e (n + 1) else e1 (j + 1)))) / d1 (j - 1))) \<and>
         ((\<forall>x. R x = x) \<and> (\<forall>i. 0 \<le> i \<and> i \<le> n - 1 \<longrightarrow> d1 i \<noteq> 0) \<and> e (n + 1) = 0 \<longrightarrow>
            (\<forall>r. 0 \<le> r \<and> r \<le> n - 1 \<longrightarrow>
               a (r - 1) * e1 r + d r * e1 (r + 1) + c r * e1 (r + 2) = b r))"
proof -
  have "a (r - 1) * e1 r + d r * e1 (r + 1) + c r * e1 (r + 2) = b r"
    if h: "(\<forall>x. R x = x) \<and> (\<forall>i. 0 \<le> i \<and> i \<le> n - 1 \<longrightarrow> d1 i \<noteq> 0) \<and> e (n + 1) = 0"
      and r: "0 \<le> r \<and> r \<le> n - 1" for r
  proof -
    from h have "R = (\<lambda>x. x)" by auto
    with t have "tri (\<lambda>x. x) a d c b e n = (d1, b1, e1)" by simp
    from tri_solves [OF n this] h r show ?thesis by blast
  qed
  with tri_leaves [OF n t] show ?thesis by blast
qed

theorem tri_overwrites_witness:
  "(1::int) \<le> 2 \<and>
   fst (tri (\<lambda>x. x) (\<lambda>i. 1) (\<lambda>i. 4) (\<lambda>i. 1) (\<lambda>i. 6) calloc 2) 1 = 15 / 4 \<and>
   fst (tri (\<lambda>x. x) (\<lambda>i. 1) (\<lambda>i. 4) (\<lambda>i. 1) (\<lambda>i. 6) calloc 2) 2 = 56 / 15 \<and>
   fst (tri (\<lambda>x. x) (\<lambda>i. 1) (\<lambda>i. 4) (\<lambda>i. 1) (\<lambda>i. 6) calloc 2) 3 = 4 \<and>
   fst (snd (tri (\<lambda>x. x) (\<lambda>i. 1) (\<lambda>i. 4) (\<lambda>i. 1) (\<lambda>i. 6) calloc 2)) 1 = 9 / 2 \<and>
   fst (snd (tri (\<lambda>x. x) (\<lambda>i. 1) (\<lambda>i. 4) (\<lambda>i. 1) (\<lambda>i. 6) calloc 2)) 2 = 24 / 5 \<and>
   snd (snd (tri (\<lambda>x. x) (\<lambda>i. 1) (\<lambda>i. 4) (\<lambda>i. 1) (\<lambda>i. 6) calloc 2)) 0 = 0 \<and>
   snd (snd (tri (\<lambda>x. x) (\<lambda>i. 1) (\<lambda>i. 4) (\<lambda>i. 1) (\<lambda>i. 6) calloc 2)) 1 = 6 / 5 \<and>
   snd (snd (tri (\<lambda>x. x) (\<lambda>i. 1) (\<lambda>i. 4) (\<lambda>i. 1) (\<lambda>i. 6) calloc 2)) 2 = 6 / 5 \<and>
   snd (snd (tri (\<lambda>x. x) (\<lambda>i. 1) (\<lambda>i. 4) (\<lambda>i. 1) (\<lambda>i. 6) calloc 2)) 3 = 0 \<and>
   1 * snd (snd (tri (\<lambda>x. x) (\<lambda>i. 1) (\<lambda>i. 4) (\<lambda>i. 1) (\<lambda>i. 6) calloc 2)) 0
     + 4 * snd (snd (tri (\<lambda>x. x) (\<lambda>i. 1) (\<lambda>i. 4) (\<lambda>i. 1) (\<lambda>i. 6) calloc 2)) 1
     + 1 * snd (snd (tri (\<lambda>x. x) (\<lambda>i. 1) (\<lambda>i. 4) (\<lambda>i. 1) (\<lambda>i. 6) calloc 2)) 2 = 6 \<and>
   1 * snd (snd (tri (\<lambda>x. x) (\<lambda>i. 1) (\<lambda>i. 4) (\<lambda>i. 1) (\<lambda>i. 6) calloc 2)) 1
     + 4 * snd (snd (tri (\<lambda>x. x) (\<lambda>i. 1) (\<lambda>i. 4) (\<lambda>i. 1) (\<lambda>i. 6) calloc 2)) 2
     + 1 * snd (snd (tri (\<lambda>x. x) (\<lambda>i. 1) (\<lambda>i. 4) (\<lambda>i. 1) (\<lambda>i. 6) calloc 2)) 3 = 6"
proof -
  define t where "t = tri (\<lambda>x. x) (\<lambda>i. 1) (\<lambda>i. 4) (\<lambda>i. 1) (\<lambda>i. 6) calloc 2"
  have t: "tri (\<lambda>x. x) (\<lambda>i. 1) (\<lambda>i. 4) (\<lambda>i. 1) (\<lambda>i. 6) calloc 2 = (fst t, fst (snd t), snd (snd t))"
    by (simp add: t_def)
  have n: "(1::int) \<le> 2" by simp
  note T = tri_overwrites [OF n t]
  from T have rows: "\<forall>i. 1 \<le> i \<and> i \<le> 2 \<longrightarrow>
      fst t i = 4 - 1 / fst t (i - 1) * 1 \<and>
      fst (snd t) i = 6 - 1 / fst t (i - 1) * fst (snd t) (i - 1)"
    and frame: "\<forall>i. i < 1 \<or> 2 < i \<longrightarrow> fst t i = 4 \<and> fst (snd t) i = 6"
    and ends: "snd (snd t) 0 = 0" "snd (snd t) (2 + 1) = 0"
    and erows: "\<forall>j. 1 \<le> j \<and> j \<le> 2 \<longrightarrow>
      snd (snd t) j = (fst (snd t) (j - 1) - 1 * (if j = 2 then calloc (2 + 1) else snd (snd t) (j + 1)))
                        / fst t (j - 1)"
    and sys: "(\<forall>i. 0 \<le> i \<and> i \<le> 2 - 1 \<longrightarrow> fst t i \<noteq> 0) \<and> calloc (2 + 1) = 0 \<longrightarrow>
      (\<forall>r. 0 \<le> r \<and> r \<le> 2 - 1 \<longrightarrow>
         1 * snd (snd t) r + 4 * snd (snd t) (r + 1) + 1 * snd (snd t) (r + 2) = 6)"
    by blast+
  from frame [rule_format, of 0] frame [rule_format, of 3]
  have d0: "fst t 0 = 4" and b0: "fst (snd t) 0 = 6" and d3: "fst t 3 = 4" by simp_all
  from rows [rule_format, of 1] d0 b0
  have d1: "fst t 1 = 15 / 4" and b1: "fst (snd t) 1 = 9 / 2" by simp_all
  from rows [rule_format, of 2] d1 b1
  have d2: "fst t 2 = 56 / 15" and b2: "fst (snd t) 2 = 24 / 5" by simp_all
  from erows [rule_format, of 2] d1 b1
  have e2: "snd (snd t) 2 = 6 / 5" by (simp add: calloc_def)
  from erows [rule_format, of 1] d0 b0 e2
  have e1: "snd (snd t) 1 = 6 / 5" by simp
  have piv: "fst t i \<noteq> 0" if "0 \<le> i \<and> i \<le> 2 - 1" for i
  proof -
    from that have "i = 0 \<or> i = 1" by arith
    with d0 d1 show ?thesis by auto
  qed
  with sys have S: "\<forall>r. 0 \<le> r \<and> r \<le> 2 - 1 \<longrightarrow>
      1 * snd (snd t) r + 4 * snd (snd t) (r + 1) + 1 * snd (snd t) (r + 2) = 6"
    by (simp add: calloc_def)
  from S [rule_format, of 0] S [rule_format, of 1]
  have s0: "1 * snd (snd t) 0 + 4 * snd (snd t) 1 + 1 * snd (snd t) 2 = 6"
    and s1: "1 * snd (snd t) 1 + 4 * snd (snd t) 2 + 1 * snd (snd t) 3 = 6"
    by simp_all
  from d1 d2 d3 b1 b2 ends e1 e2 s0 s1 show ?thesis
    unfolding t_def by simp
qed

text \<open>
  The arrays can come back as they went in. For a diagonal system with a zero right-hand
  side \<^verbatim>\<open>tri\<close> changes nothing at all; and for the system of a spline with equal
  widths and a zero right-hand side (tabulated values on a line) it changes \<open>d\<close> and
  leaves \<open>b\<close> as it was.
\<close>

theorem tri_retains_counterexample:
  "tri binary64 calloc (\<lambda>i. 4) calloc calloc calloc 2 = (\<lambda>i. 4, calloc, calloc) \<and>
   fst (snd (tri binary64 (\<lambda>i. 1) (\<lambda>i. 4) (\<lambda>i. 1) calloc calloc 2)) = calloc"
proof -
  have upd: "f(x := 0) = f" if "f x = 0" for f :: darray and x
    using that by auto
  have "tri binary64 calloc (\<lambda>i. 4) calloc calloc calloc 2 = (\<lambda>i. 4, calloc, calloc)"
    by (simp add: tri_def eval_nat_numeral tri_eliminate_def tri_substitute_def Let_def calloc_def upd
          binary64_0 binary64_small fun_eq_iff)
  moreover have "fst (snd (tri binary64 (\<lambda>i. 1) (\<lambda>i. 4) (\<lambda>i. 1) calloc calloc 2)) = calloc"
    by (simp add: tri_def eval_nat_numeral tri_eliminate_def Let_def calloc_def upd binary64_0)
  ultimately show ?thesis ..
qed

section \<open>Spline interpolation at and between the knots\<close>

lemma for_loop_last_below:
  assumes mono: "\<And>k. 0 \<le> k \<Longrightarrow> k < int m \<Longrightarrow> (xi k \<le> x \<longleftrightarrow> k \<le> i)"
    and i: "0 \<le> i" and m: "0 < m"
  shows "for_loop m (\<lambda>k j. if xi k \<le> x then k else j) j0 = min i (int m - 1)"
  using m mono
proof (induction m)
  case 0
  then show ?case by simp
next
  case (Suc m)
  show ?case
  proof (cases "m = 0")
    case True
    with Suc.prems(2) [of 0] i show ?thesis by simp
  next
    case False
    then have "for_loop m (\<lambda>k j. if xi k \<le> x then k else j) j0 = min i (int m - 1)"
      using Suc.IH Suc.prems(2) by simp
    moreover have "xi (int m) \<le> x \<longleftrightarrow> int m \<le> i"
      using Suc.prems(2) [of "int m"] by simp
    ultimately show ?thesis by (simp add: min_def)
  qed
qed

text \<open>
  The interval that \<^verbatim>\<open>spline3\<close> finds for a point from a knot \<open>i\<close> up to, but not
  including, the next one: the interval \<open>i\<close>, or the last interval for the last knot.
\<close>

lemma spline3_locate_interval:
  assumes N: "2 \<le> N"
    and mono: "\<And>k l. 0 \<le> k \<Longrightarrow> k < l \<Longrightarrow> l \<le> N - 1 \<Longrightarrow> xi k < xi l"
    and i: "0 \<le> i" "i \<le> N - 1"
    and lo: "xi i \<le> x" and hi: "i < N - 1 \<Longrightarrow> x < xi (i + 1)"
  shows "spline3_locate xi N x j = min i (N - 2)"
proof -
  have le: "xi k \<le> x \<longleftrightarrow> k \<le> i" if k: "0 \<le> k" "k < int (nat (N - 1))" for k
  proof (cases "k \<le> i")
    case True
    have "xi k \<le> xi i"
      using mono [of k i] True k i by (cases "k = i") simp_all
    with lo True show ?thesis by simp
  next
    case False
    with k N have iN: "i < N - 1" and k1: "i + 1 \<le> k" "k \<le> N - 1" by simp_all
    have "xi (i + 1) \<le> xi k"
      using mono [of "i + 1" k] k1 i by (cases "k = i + 1") simp_all
    with hi [OF iN] False show ?thesis by simp
  qed
  show ?thesis
    unfolding spline3_locate_def
    using for_loop_last_below [of "nat (N - 1)" xi x i j] le i N by simp
qed

lemma spline3_eval_left:
  assumes "R 0 = 0" and "R (yi j) = yi j"
  shows "spline3_eval R xi yi z h j (xi j) = yi j"
  using assms by (simp add: spline3_eval_def)

lemma spline3_eval_right:
  assumes "h j = xi (j + 1) - xi j" and "xi j \<noteq> xi (j + 1)"
  shows "spline3_eval (\<lambda>x. x) xi yi z h j (xi (j + 1)) = yi (j + 1)"
proof -
  have "h j \<noteq> 0" using assms by simp
  then show ?thesis
    unfolding spline3_eval_def Let_def assms(1) [symmetric]
    by (simp add: field_simps power2_eq_square)
qed

lemma spline3_rounds:
  fixes body :: "int \<Rightarrow> int \<times> darray \<Rightarrow> int \<times> darray"
  assumes body: "body = (\<lambda>n jy. let j = spline3_locate xi N (x n) (fst jy)
                     in (j, (snd jy)(n := spline3_eval R xi yi z h j (x n))))"
    and n: "0 \<le> n" "n < int m"
  shows "snd (for_loop m body s) n =
           spline3_eval R xi yi z h (spline3_locate xi N (x n) (fst (for_loop (nat n) body s))) (x n)"
  using n
proof (induction m)
  case 0
  then show ?case by simp
next
  case (Suc m)
  show ?case
  proof (cases "n = int m")
    case True
    then have "nat n = m" by simp
    with True show ?thesis
      by (simp add: body Let_def)
  next
    case False
    with Suc.prems have "n < int m" by simp
    with Suc.IH Suc.prems(1) False show ?thesis
      by (simp add: body Let_def)
  qed
qed

text \<open>The value that \<^verbatim>\<open>spline3\<close> stores at an index of the output.\<close>

lemma spline3_value:
  assumes n: "0 \<le> n" "n \<le> nx"
    and loc: "\<And>j. spline3_locate xi N (x n) j = l"
  shows "spline3 R xi yi x z h y nx N j0 n = spline3_eval R xi yi z h l (x n)"
proof -
  define body :: "int \<Rightarrow> int \<times> darray \<Rightarrow> int \<times> darray" where
    "body = (\<lambda>n jy. let j = spline3_locate xi N (x n) (fst jy)
                     in (j, (snd jy)(n := spline3_eval R xi yi z h j (x n))))"
  have "spline3 R xi yi x z h y nx N j0 n =
          spline3_eval R xi yi z h (spline3_locate xi N (x n)
             (fst (for_loop (nat n) body (j0, y(0 := yi 0))))) (x n)"
    unfolding spline3_def body_def [symmetric]
    using n by (intro spline3_rounds [OF body_def]) simp_all
  then show ?thesis by (simp add: loc)
qed

lemma spline3_at_knot:
  assumes N: "2 \<le> N"
    and mono: "\<And>k l. 0 \<le> k \<Longrightarrow> k < l \<Longrightarrow> l \<le> N - 1 \<Longrightarrow> xi k < xi l"
    and i: "0 \<le> i" "i \<le> N - 2"
    and n: "0 \<le> n" "n \<le> nx" and x: "x n = xi i"
    and R: "R 0 = 0" "R (yi i) = yi i"
  shows "spline3 R xi yi x z h y nx N j0 n = yi i"
proof -
  have "spline3_locate xi N (x n) j = i" for j
    using spline3_locate_interval [of N xi i "x n" j] N i x mono [of i "i + 1"]
    by (simp add: mono)
  then have "spline3 R xi yi x z h y nx N j0 n = spline3_eval R xi yi z h i (x n)"
    by (intro spline3_value n)
  then show ?thesis
    by (simp add: x spline3_eval_left R)
qed

lemma spline3_at_last_knot:
  assumes N: "2 \<le> N"
    and mono: "\<And>k l. 0 \<le> k \<Longrightarrow> k < l \<Longrightarrow> l \<le> N - 1 \<Longrightarrow> xi k < xi l"
    and h: "h (N - 2) = xi (N - 1) - xi (N - 2)"
    and n: "0 \<le> n" "n \<le> nx" and x: "x n = xi (N - 1)"
  shows "spline3 (\<lambda>x. x) xi yi x z h y nx N j0 n = yi (N - 1)"
proof -
  have "spline3_locate xi N (x n) j = N - 2" for j
    using spline3_locate_interval [of N xi "N - 1" "x n" j] N x
    by (simp add: mono)
  then have "spline3 (\<lambda>x. x) xi yi x z h y nx N j0 n = spline3_eval (\<lambda>x. x) xi yi z h (N - 2) (x n)"
    by (intro spline3_value n)
  moreover have "xi (N - 2) < xi (N - 2 + 1)"
    using mono [of "N - 2" "N - 2 + 1"] N by simp
  then have "spline3_eval (\<lambda>x. x) xi yi z h (N - 2) (xi (N - 2 + 1)) = yi (N - 2 + 1)"
    using h by (intro spline3_eval_right) simp_all
  ultimately show ?thesis
    by (simp add: x)
qed


text \<open>
  The index that the search of \<^verbatim>\<open>splinterp_pt\<close> finds for a point that is a knot, or
  lies strictly between two neighbouring knots.
\<close>

lemma pt_search_interval:
  assumes mono: "\<And>k l. 0 \<le> k \<Longrightarrow> k < l \<Longrightarrow> l \<le> N - 1 \<Longrightarrow> x k < x l"
    and i: "i \<le> N - 1"
    and pos: "xout = x i \<or> (x i < xout \<and> xout < x (i + 1) \<and> i \<le> N - 2)"
  shows "0 \<le> first \<Longrightarrow> first \<le> i \<Longrightarrow> i \<le> last1 \<Longrightarrow> last1 \<le> N
         \<Longrightarrow> pt_search x xout first last1 = Some i"
proof (induction "nat (last1 - first + 1)" arbitrary: first last1 rule: less_induct)
  case less
  define mid where "mid = (first + last1) sdiv 2"
  from less.prems have m: "mid = (first + last1) div 2"
    by (simp add: mid_def signed_divide_int_def sgn_if)
  with less.prems i have mr: "first \<le> mid" "mid \<le> last1" "mid \<le> N - 1" "0 \<le> mid"
    by simp_all
  from pos have lo: "x i \<le> xout" by auto
  have below: "x k \<le> xout" "k \<noteq> i \<Longrightarrow> x k < xout" if "0 \<le> k" "k \<le> i" for k
    using mono [of k i] that i lo by (cases "k = i"; simp)+
  have above: "xout < x k" if k: "i < k" "k \<le> N - 1" for k
  proof (cases "xout = x i")
    case True
    with mono [of i k] k less.prems show ?thesis by simp
  next
    case False
    with pos have hi: "xout < x (i + 1)" by simp
    have "x (i + 1) \<le> x k"
      using mono [of "i + 1" k] k less.prems by (cases "k = i + 1") simp_all
    with hi show ?thesis by simp
  qed
  have unfold: "pt_search x xout first last1 =
     (if x mid < xout \<and> x (mid + 1) > xout then Some mid
      else if x mid < xout then pt_search x xout (mid + 1) last1
      else if x mid > xout then pt_search x xout first (mid - 1)
      else Some mid)"
    using less.prems by (subst pt_search.simps) (simp add: mid_def [symmetric] Let_def)
  show ?case
  proof (cases mid i rule: linorder_cases)
    case less': less
    then have "x mid < xout" using below(2) [of mid] mr by simp
    moreover have "\<not> xout < x (mid + 1)"
      using below(1) [of "mid + 1"] less' mr by simp
    ultimately have "pt_search x xout first last1 = pt_search x xout (mid + 1) last1"
      by (simp add: unfold)
    also have "\<dots> = Some i"
      using less' less.prems mr by (intro less.hyps) simp_all
    finally show ?thesis .
  next
    case equal
    with pos show ?thesis by (auto simp: unfold)
  next
    case greater
    then have "xout < x mid" using above mr by simp
    then have "pt_search x xout first last1 = pt_search x xout first (mid - 1)"
      by (simp add: unfold)
    also have "\<dots> = Some i"
      using greater less.prems mr by (intro less.hyps) simp_all
    finally show ?thesis .
  qed
qed

text \<open>
  When no query point lies below the first knot, the inner loop of \<^verbatim>\<open>spline3\<close>
  always finds an interval, and every subscript of a run of \<^verbatim>\<open>splinterp\<close> with
  \<open>N \<ge> 3\<close> and \<open>nx \<ge> 1\<close> is inside its block.
\<close>

lemma locate_range:
  assumes "xi 0 \<le> x"
  shows "0 < m \<Longrightarrow> 0 \<le> for_loop m (\<lambda>k j. if xi k \<le> x then k else j) j0
           \<and> for_loop m (\<lambda>k j. if xi k \<le> x then k else j) j0 < int m"
proof (induction m)
  case 0
  then show ?case by simp
next
  case (Suc m)
  show ?case
  proof (cases "m = 0")
    case True
    with assms show ?thesis by simp
  next
    case False
    with Suc.IH show ?thesis by auto
  qed
qed

lemma spline3_locate_range:
  assumes "2 \<le> N" and "xi 0 \<le> x"
  shows "in_block N (spline3_locate xi N x j) \<and> in_block N (spline3_locate xi N x j + 1)"
  using locate_range [of xi x "nat (N - 1)" j] assms
  by (simp add: spline3_locate_def in_block_def)

lemma spline3_subscripts_loop:
  assumes N: "2 \<le> N" and lo: "\<And>m. 0 \<le> m \<Longrightarrow> m \<le> nx \<Longrightarrow> xi 0 \<le> x m"
  shows "m \<le> nat (nx + 1) \<Longrightarrow>
         list_all (in_block N)
           (snd (for_loop m (\<lambda>n js. let j = spline3_locate xi N (x n) (fst js)
                                      in (j, snd js @ [j, j + 1])) (j0, [])))"
proof (induction m)
  case 0
  then show ?case by simp
next
  case (Suc m)
  then have "xi 0 \<le> x (int m)" by (intro lo) simp_all
  with spline3_locate_range [of N xi "x (int m)"] N Suc show ?case
    by (simp add: Let_def)
qed

lemma spline3_subscripts_inside:
  assumes "2 \<le> N" and "\<And>m. 0 \<le> m \<Longrightarrow> m \<le> nx \<Longrightarrow> xi 0 \<le> x m"
  shows "list_all (in_block N) (spline3_subscripts xi x nx N j0)"
  unfolding spline3_subscripts_def
  using spline3_subscripts_loop [where N = N and nx = nx and xi = xi and x = x
      and m = "nat (nx + 1)" and ?j0.0 = j0] assms
  by simp

lemma tri_subscripts_inside:
  "list_all (in_block N) (tri_subscripts (N - 2)) \<longleftrightarrow> 3 \<le> N"
  by (auto simp: tri_subscripts_def in_block_def list_all_iff)

lemma splinterp_subscripts_inside:
  "3 \<le> N \<Longrightarrow> list_all (in_block N) (splinterp_subscripts N)"
  by (auto simp: splinterp_subscripts_def in_block_def list_all_iff)

lemma splinterp_blocks:
  assumes "3 \<le> N" and "1 \<le> nx" and "\<And>m. 0 \<le> m \<Longrightarrow> m < nx \<Longrightarrow> xi 0 \<le> xout m"
  shows "list_all (in_block N)
           (splinterp_subscripts N @ tri_subscripts (N - 2) @ spline3_subscripts xi xout (nx - 1) N j0)
         \<and> list_all (in_block (nx - 1 + 1)) (0 # [0..nx - 1])"
proof -
  have "list_all (in_block N) (spline3_subscripts xi xout (nx - 1) N j0)"
    using assms by (intro spline3_subscripts_inside) simp_all
  moreover have "list_all (in_block (nx - 1 + 1)) (0 # [0..nx - 1])"
    using assms(2) by (auto simp: in_block_def list_all_iff)
  ultimately show ?thesis
    using assms(1) by (simp add: tri_subscripts_inside splinterp_subscripts_inside)
qed

lemma splinterp_undefined:
  assumes "N \<le> 2"
  shows "splinterp R N xi yi nx xout j0 = None"
  using assms tri_subscripts_inside [of N] by (simp add: splinterp_def Let_def)

lemma splinterp_at_knot:
  assumes N: "3 \<le> N"
    and mono: "\<And>k l. 0 \<le> k \<Longrightarrow> k < l \<Longrightarrow> l \<le> N - 1 \<Longrightarrow> xi k < xi l"
    and i: "0 \<le> i" "i \<le> N - 2"
    and n: "0 \<le> n" "n < nx" and x: "xout n = xi i"
    and lo: "\<And>m. 0 \<le> m \<Longrightarrow> m < nx \<Longrightarrow> xi 0 \<le> xout m"
    and R: "R 0 = 0" "R (yi i) = yi i"
  shows "map_option (\<lambda>y. y n) (splinterp R N xi yi nx xout j0) = Some (yi i)"
proof -
  have G: "list_all (in_block N)
           (splinterp_subscripts N @ tri_subscripts (N - 2) @ spline3_subscripts xi xout (nx - 1) N j0)
         \<and> list_all (in_block (nx - 1 + 1)) (0 # [0..nx - 1])"
    using N n lo by (intro splinterp_blocks) simp_all
  have "spline3 R xi yi xout z h calloc (nx - 1) N j0 n = yi i" for z h
    using N i n x R by (intro spline3_at_knot) (simp_all add: mono)
  then show ?thesis
    unfolding splinterp_def Let_def if_P [OF G] by simp
qed

lemma splinterp_at_last_knot:
  assumes N: "3 \<le> N"
    and mono: "\<And>k l. 0 \<le> k \<Longrightarrow> k < l \<Longrightarrow> l \<le> N - 1 \<Longrightarrow> xi k < xi l"
    and n: "0 \<le> n" "n < nx" and x: "xout n = xi (N - 1)"
    and lo: "\<And>m. 0 \<le> m \<Longrightarrow> m < nx \<Longrightarrow> xi 0 \<le> xout m"
  shows "map_option (\<lambda>y. y n) (splinterp (\<lambda>x. x) N xi yi nx xout j0) = Some (yi (N - 1))"
proof -
  have G: "list_all (in_block N)
           (splinterp_subscripts N @ tri_subscripts (N - 2) @ spline3_subscripts xi xout (nx - 1) N j0)
         \<and> list_all (in_block (nx - 1 + 1)) (0 # [0..nx - 1])"
    using N n lo by (intro splinterp_blocks) simp_all
  have "spline3 (\<lambda>x. x) xi yi xout z
          (\<lambda>i. if 0 \<le> i \<and> i \<le> N - 1 - 1 then xi (i + 1) - xi i else calloc i)
          calloc (nx - 1) N j0 n = yi (N - 1)" for z
    using N n x by (intro spline3_at_last_knot) (simp_all add: mono)
  then show ?thesis
    unfolding splinterp_def Let_def if_P [OF G] by simp
qed

lemma splinterp_pt_at_knot:
  assumes mono: "\<And>k l. 0 \<le> k \<Longrightarrow> k < l \<Longrightarrow> l \<le> N - 1 \<Longrightarrow> x k < x l"
    and i: "0 \<le> i" "i \<le> N - 1"
  shows "splinterp_pt R z N x y (x i) index0 = y i"
proof -
  have "pt_search x (x i) 0 N = Some i"
    using i by (intro pt_search_interval [of N]) (simp_all add: mono)
  then show ?thesis
    by (simp add: splinterp_pt_def splinterp_pt_eval_def Let_def)
qed

text \<open>
  Claim C3, as the code has it. The knots \<open>xi[0..N-1]\<close> increase strictly, the query
  point \<open>xout[n]\<close> is the knot \<open>xi[i]\<close>, no query point lies below the first knot, and
  the rounding leaves 0 and the tabulated value \<open>yi[i]\<close> as they are. With \<open>N = 2\<close> a
  run of the bulk mode (\<^verbatim>\<open>splinterp\<close>) is undefined: \<^verbatim>\<open>tri\<close> stores outside the
  block of \<^verbatim>\<open>e\<close>. With \<open>N \<ge> 3\<close> the bulk mode returns \<open>yi[i]\<close> at the knot \<open>xi[i]\<close>
  for every knot but the last, and in exact arithmetic at every knot, the last included.
  The point mode (\<^verbatim>\<open>splinterp_pt\<close>) returns \<open>yi[i]\<close> at every knot, whatever \<open>z\<close>
  holds.
\<close>

theorem spline_knots:
  assumes N: "2 \<le> N"
    and mono: "\<And>k l. 0 \<le> k \<Longrightarrow> k < l \<Longrightarrow> l \<le> N - 1 \<Longrightarrow> xi k < xi l"
    and i: "0 \<le> i" "i \<le> N - 1"
    and n: "0 \<le> n" "n < nx" and x: "xout n = xi i"
    and lo: "\<And>m. 0 \<le> m \<Longrightarrow> m < nx \<Longrightarrow> xi 0 \<le> xout m"
    and R: "R 0 = 0" "R (yi i) = yi i"
  shows "(N = 2 \<longrightarrow> splinterp R N xi yi nx xout j0 = None) \<and>
         (3 \<le> N \<and> i \<le> N - 2 \<longrightarrow>
            map_option (\<lambda>y. y n) (splinterp R N xi yi nx xout j0) = Some (yi i)) \<and>
         (3 \<le> N \<longrightarrow>
            map_option (\<lambda>y. y n) (splinterp (\<lambda>x. x) N xi yi nx xout j0) = Some (yi i)) \<and>
         splinterp_pt R z N xi yi (xi i) index0 = yi i"
proof (intro conjI impI)
  show "splinterp R N xi yi nx xout j0 = None" if "N = 2"
    using that by (intro splinterp_undefined) simp
  show "map_option (\<lambda>y. y n) (splinterp R N xi yi nx xout j0) = Some (yi i)"
    if "3 \<le> N \<and> i \<le> N - 2"
    using that mono i(1) n x lo R by (intro splinterp_at_knot) simp_all
  show "map_option (\<lambda>y. y n) (splinterp (\<lambda>x. x) N xi yi nx xout j0) = Some (yi i)" if N3: "3 \<le> N"
  proof (cases "i \<le> N - 2")
    case True
    with N3 mono i(1) n x lo show ?thesis
      by (intro splinterp_at_knot) simp_all
  next
    case False
    with i have last_knot: "i = N - 1" by simp
    have "map_option (\<lambda>y. y n) (splinterp (\<lambda>x. x) N xi yi nx xout j0) = Some (yi (N - 1))"
      using N3 n x lo last_knot by (intro splinterp_at_last_knot) (simp_all add: mono)
    with last_knot show ?thesis by simp
  qed
  show "splinterp_pt R z N xi yi (xi i) index0 = yi i"
    using mono i by (rule splinterp_pt_at_knot)
qed

lemma knot_z:
  "snd (snd (tri binary64 (\<lambda>i. if i = 0 then 1 else 0) (\<lambda>i. if i = 0 then 4 else 0)
     (\<lambda>i. if i = 0 then 1 else 0) calloc calloc 1)) = calloc"
  by (simp add: tri_def tri_eliminate_def tri_substitute_def Let_def calloc_def
        binary64_0 binary64_small fun_eq_iff)

theorem spline_knots_witness:
  "binary64 0 = 0 \<and> binary64 1 = 1 \<and>
   map_option (\<lambda>y. y 1)
     (splinterp binary64 3 (\<lambda>i. real_of_int i) (\<lambda>i. real_of_int (i * i)) 3 (\<lambda>i. real_of_int i) 0) = Some 1 \<and>
   map_option (\<lambda>y. y 1)
     (splinterp (\<lambda>x. x) 3 (\<lambda>i. real_of_int i) (\<lambda>i. real_of_int (i * i)) 3 (\<lambda>i. real_of_int i) 0) = Some 1 \<and>
   splinterp_pt binary64 calloc 3 (\<lambda>i. real_of_int i) (\<lambda>i. real_of_int (i * i)) 1 0 = 1 \<and>
   splinterp binary64 2 (\<lambda>i. real_of_int i) (\<lambda>i. real_of_int (i * i)) 2 (\<lambda>i. real_of_int i) 0 = None"
  using spline_knots [of 3 "\<lambda>i. real_of_int i" 1 1 3 "\<lambda>i. real_of_int i" binary64
      "\<lambda>i. real_of_int (i * i)" 0 calloc 0]
    spline_knots [of 2 "\<lambda>i. real_of_int i" 1 1 2 "\<lambda>i. real_of_int i" binary64
      "\<lambda>i. real_of_int (i * i)" 0 calloc 0]
  by (simp add: binary64_0 binary64_small)

text \<open>
  In binary64 arithmetic the bulk mode misses the value at the last knot: for the knots
  0, 1, 2 with the values 2, 1 and \<open>2\<^sup>-\<^sup>6\<^sup>0\<close>, \<^verbatim>\<open>splinterp\<close> computes second
  derivatives that are all 0 and returns 0 at the knot 2.
\<close>

theorem spline_last_knot_counterexample:
  "map_option (\<lambda>y. y 2)
     (splinterp binary64 3 (\<lambda>i. real_of_int i) (\<lambda>i. if i = 0 then 2 else if i = 1 then 1 else 1 / 2 ^ 60)
        3 (\<lambda>i. real_of_int i) 0) = Some 0 \<and>
   (\<lambda>i. if i = 0 then 2 else if i = 1 then 1 else 1 / 2 ^ 60) (2::int) = (1 / 2 ^ 60 :: real)"
proof -
  define yi :: darray where "yi = (\<lambda>i. if i = 0 then 2 else if i = 1 then 1 else 1 / 2 ^ 60)"
  define h :: darray where "h = (\<lambda>i. if 0 \<le> i \<and> i \<le> 3 - 1 - 1 then binary64 (real_of_int (i + 1) - real_of_int i) else calloc i)"
  define k :: darray where "k = (\<lambda>i. if 0 \<le> i \<and> i \<le> 3 - 1 - 2
                     then binary64 (6 * binary64 (binary64 (binary64 (yi (i + 2) - yi (i + 1)) / h (i + 1))
                                    - binary64 (binary64 (yi (i + 1) - yi i) / h i)))
                     else calloc i)"
  define a :: darray where "a = (\<lambda>i. if 0 \<le> i \<and> i \<le> 3 - 1 - 2 then h (i + 1) else calloc i)"
  define d :: darray where "d = (\<lambda>i. if 0 \<le> i \<and> i \<le> 3 - 1 - 2 then binary64 (2 * binary64 (h i + h (i + 1))) else calloc i)"
  define z where "z = snd (snd (tri binary64 a d a k calloc (3 - 2)))"
  have h: "h = (\<lambda>i. if 0 \<le> i \<and> i \<le> 1 then 1 else 0)"
    by (auto simp: h_def fun_eq_iff calloc_def binary64_small)
  have k: "k = calloc"
    by (auto simp: k_def h yi_def fun_eq_iff calloc_def binary64_small binary64_0 binary64_absorbed)
  have a: "a = (\<lambda>i. if i = 0 then 1 else 0)"
    by (auto simp: a_def h fun_eq_iff calloc_def)
  have d: "d = (\<lambda>i. if i = 0 then 4 else 0)"
    by (auto simp: d_def h fun_eq_iff calloc_def binary64_small)
  have z: "z = calloc"
    unfolding z_def a d k by (simp add: knot_z)
  have loc: "spline3_locate (\<lambda>i. real_of_int i) 3 2 j = 1" for j
    by (simp add: spline3_locate_def eval_nat_numeral)
  have ev: "spline3_eval binary64 (\<lambda>i. real_of_int i) yi calloc h 1 2 = 0"
    by (simp add: spline3_eval_def Let_def h yi_def calloc_def binary64_0 binary64_small binary64_absorbed)
  have G: "list_all (in_block 3)
           (splinterp_subscripts 3 @ tri_subscripts (3 - 2)
              @ spline3_subscripts (\<lambda>i. real_of_int i) (\<lambda>i. real_of_int i) (3 - 1) 3 0)
         \<and> list_all (in_block (3 - 1 + 1)) (0 # [0..3 - 1])"
    by (intro splinterp_blocks) simp_all
  have A: "splinterp binary64 3 (\<lambda>i. real_of_int i) yi 3 (\<lambda>i. real_of_int i) 0
          = Some (spline3 binary64 (\<lambda>i. real_of_int i) yi (\<lambda>i. real_of_int i) z h calloc (3 - 1) 3 0)"
    unfolding splinterp_def Let_def if_P [OF G] z_def a_def d_def k_def h_def ..
  have "spline3 binary64 (\<lambda>i. real_of_int i) yi (\<lambda>i. real_of_int i) z h calloc (3 - 1) 3 0 2 = 0"
    unfolding z by (simp add: spline3_def Let_def eval_nat_numeral loc ev)
  with A show ?thesis
    unfolding yi_def by simp
qed

lemma eval_agree_exact:
  assumes h: "h j = xi (j + 1) - xi j" and x: "xi j < x" "x < xi (j + 1)"
  shows "splinterp_pt_eval (\<lambda>x. x) z xi yi j x = spline3_eval (\<lambda>x. x) xi yi z h j x"
proof -
  define dx where "dx = x - xi j"
  define a where "a = (z (j + 1) - z j) / (6 * (xi (j + 1) - xi j))"
  define b where "b = z j / 2"
  define c where "c = (yi (j + 1) - yi j) / (xi (j + 1) - xi j)
                       - (xi (j + 1) - xi j) / 6 * (z (j + 1) + 2 * z j)"
  from x have "xi j \<noteq> x" and "0 < xi (j + 1) - xi j" by simp_all
  then have L: "splinterp_pt_eval (\<lambda>x. x) z xi yi j x = yi j + dx * (c + dx * (b + dx * a))"
    unfolding splinterp_pt_eval_def Let_def dx_def a_def b_def c_def by simp
  have E: "spline3_eval (\<lambda>x. x) xi yi z h j x = yi j + dx * c + dx * dx * b + dx * dx * dx * a"
    unfolding spline3_eval_def Let_def h dx_def a_def b_def c_def by simp
  show ?thesis
    unfolding L E by (simp add: algebra_simps)
qed

text \<open>
  Claim C6, as the code has it. With the same knots, values, second derivatives and
  interval widths, at a query point strictly inside an interval, \<^verbatim>\<open>spline3\<close> and
  \<^verbatim>\<open>splinterp_pt\<close> find the same interval and their formulas give the same value in
  exact arithmetic.
\<close>

theorem spline_modes_agree_exact:
  assumes N: "2 \<le> N"
    and mono: "\<And>k l. 0 \<le> k \<Longrightarrow> k < l \<Longrightarrow> l \<le> N - 1 \<Longrightarrow> xi k < xi l"
    and j: "0 \<le> j" "j \<le> N - 2"
    and inside: "xi j < x n" "x n < xi (j + 1)"
    and h: "h j = xi (j + 1) - xi j"
    and n: "0 \<le> n" "n \<le> nx"
  shows "spline3 (\<lambda>x. x) xi yi x z h y nx N j0 n = splinterp_pt (\<lambda>x. x) z N xi yi (x n) index0"
proof -
  have "spline3_locate xi N (x n) l = j" for l
    using spline3_locate_interval [of N xi j "x n" l] N j inside
    by (simp add: mono)
  then have "spline3 (\<lambda>x. x) xi yi x z h y nx N j0 n = spline3_eval (\<lambda>x. x) xi yi z h j (x n)"
    by (intro spline3_value n)
  moreover have "pt_search xi (x n) 0 N = Some j"
    using j inside by (intro pt_search_interval [of N]) (simp_all add: mono)
  then have "splinterp_pt (\<lambda>x. x) z N xi yi (x n) index0 = splinterp_pt_eval (\<lambda>x. x) z xi yi j (x n)"
    by (simp add: splinterp_pt_def)
  ultimately show ?thesis
    using eval_agree_exact [of h j xi "x n" z yi, OF h inside] by simp
qed

theorem spline_modes_agree_exact_witness:
  "spline3 (\<lambda>x. x) (\<lambda>i. 3 * real_of_int i) (\<lambda>i. 3 * real_of_int i) (\<lambda>n. 1)
     (\<lambda>i. if i = 0 then 2 else 0) (\<lambda>i. 3) calloc 0 2 0 0 =
   splinterp_pt (\<lambda>x. x) (\<lambda>i. if i = 0 then 2 else 0) 2 (\<lambda>i. 3 * real_of_int i)
     (\<lambda>i. 3 * real_of_int i) 1 0"
  using spline_modes_agree_exact [of 2 "\<lambda>i. 3 * real_of_int i" 0 "\<lambda>n. 1" 0 "\<lambda>i. 3" 0
      "\<lambda>i. 3 * real_of_int i" "\<lambda>i. if i = 0 then 2 else 0" calloc 0 0]
  by simp

lemma bulk_value:
  "spline3_eval binary64 (\<lambda>i. 3 * real_of_int i) (\<lambda>i. 3 * real_of_int i)
     (\<lambda>i. if i = 0 then 2 else 0) (\<lambda>i. 3) 0 1 = - (2001599834386887 / 2 ^ 54)"
  by (simp add: spline3_eval_def Let_def binary64_0 binary64_small binary64_ninth)

lemma point_value:
  "splinterp_pt_eval binary64 (\<lambda>i. if i = 0 then 2 else 0) (\<lambda>i. 3 * real_of_int i)
     (\<lambda>i. 3 * real_of_int i) 0 1 = - (250199979298361 / 2 ^ 51)"
  by (simp add: splinterp_pt_eval_def Let_def binary64_0 binary64_small binary64_ninth)

lemma search_value: "pt_search (\<lambda>i. 3 * real_of_int i) 1 0 2 = Some 0"
  by (simp add: pt_search.simps [of _ _ 0 2] pt_search.simps [of _ _ 0 0] signed_divide_int_def Let_def)

text \<open>
  In binary64 arithmetic the two formulas differ: for the knots 0 and 3 with the values 0
  and 3, the second derivatives 2 and 0, the width 3 and the query point 1, the sum of
  \<^verbatim>\<open>spline3\<close> and the nested products of \<^verbatim>\<open>splinterp_pt\<close> round to different
  numbers near \<open>-1/9\<close>.
\<close>

theorem spline_modes_bits_counterexample:
  "spline3 binary64 (\<lambda>i. 3 * real_of_int i) (\<lambda>i. 3 * real_of_int i) (\<lambda>n. 1)
     (\<lambda>i. if i = 0 then 2 else 0) (\<lambda>i. 3) calloc 0 2 0 0 = - (2001599834386887 / 2 ^ 54) \<and>
   splinterp_pt binary64 (\<lambda>i. if i = 0 then 2 else 0) 2 (\<lambda>i. 3 * real_of_int i)
     (\<lambda>i. 3 * real_of_int i) 1 0 = - (250199979298361 / 2 ^ 51) \<and>
   - (2001599834386887 / 2 ^ 54) \<noteq> (- (250199979298361 / 2 ^ 51) :: real)"
proof -
  have "spline3_locate (\<lambda>i. 3 * real_of_int i) 2 1 0 = 0"
    by (simp add: spline3_locate_def)
  then have "spline3 binary64 (\<lambda>i. 3 * real_of_int i) (\<lambda>i. 3 * real_of_int i) (\<lambda>n. 1)
     (\<lambda>i. if i = 0 then 2 else 0) (\<lambda>i. 3) calloc 0 2 0 0 = - (2001599834386887 / 2 ^ 54)"
    by (simp add: spline3_def Let_def bulk_value)
  moreover have "splinterp_pt binary64 (\<lambda>i. if i = 0 then 2 else 0) 2 (\<lambda>i. 3 * real_of_int i)
     (\<lambda>i. 3 * real_of_int i) 1 0 = - (250199979298361 / 2 ^ 51)"
    by (simp add: splinterp_pt_def search_value point_value)
  ultimately show ?thesis by simp
qed

section \<open>Simpson integration\<close>

lemma for_loop_sum:
  "for_loop m (\<lambda>i (res::real). res + t i) 0 = sum t {0..<int m}"
proof (induction m)
  case 0
  show ?case by simp
next
  case (Suc m)
  have "{0..<int (Suc m)} = insert (int m) {0..<int m}" by auto
  with Suc show ?case by simp
qed

lemma simpson_sum:
  "simpson y hsum hratio hfactor n =
     (\<Sum>i = 0..<(n - 1) sdiv 2.
        (y (2 * i + (if n smod 2 = 0 then 1 else 0)) * (2 - hratio i)
         + y (2 * i + (if n smod 2 = 0 then 1 else 0) + 1) * hfactor i
         + y (2 * i + (if n smod 2 = 0 then 1 else 0) + 2) * (2 - 1 / hratio i)) * hsum i) / 6"
proof -
  have "int (nat ((n - 1) sdiv 2)) = (n - 1) sdiv 2 \<or> (n - 1) sdiv 2 < 0"
    by auto
  then have "{0..<int (nat ((n - 1) sdiv 2))} = {0..<(n - 1) sdiv 2}"
    by auto
  then show ?thesis
    unfolding simpson_def Let_def for_loop_sum by simp
qed

lemma sdiv_smod_nonneg:
  "0 \<le> n \<Longrightarrow> n sdiv 2 = n div (2::int)" "0 \<le> n \<Longrightarrow> n smod 2 = n mod (2::int)"
  by (simp_all add: signed_divide_int_def signed_modulo_int_def sgn_if)

text \<open>
  Claim C5. \<^verbatim>\<open>simps\<close> returns 0 for \<open>n = 1\<close> and the trapezoid
  \<open>h[0] (y[0] + y[1]) / 2\<close> for \<open>n = 2\<close>. For an even \<open>n \<ge> 4\<close> it returns the sum
  over the \<open>n/2 - 1\<close> pairs of intervals behind the first interval (the pair \<open>i\<close>
  starts at \<open>j = 2 i + 1\<close>) of
  \<open>(y[j] (2 - hratio[i]) + y[j+1] hfactor[i] + y[j+2] (2 - 1/hratio[i])) hsum[i]\<close>,
  divided by 6, plus the trapezoid of the first interval.
\<close>

theorem simps_cases:
  "simps y h hsum hratio hfactor 1 = 0 \<and>
   simps y h hsum hratio hfactor 2 = h 0 * (y 0 + y 1) / 2 \<and>
   (4 \<le> n \<and> even n \<longrightarrow>
      simps y h hsum hratio hfactor n =
        (\<Sum>i = 0..<n div 2 - 1.
           (y (2 * i + 1) * (2 - hratio i) + y (2 * i + 1 + 1) * hfactor i
            + y (2 * i + 1 + 2) * (2 - 1 / hratio i)) * hsum i) / 6
        + h 0 * (y 0 + y 1) / 2)"
proof (intro conjI impI)
  show "simps y h hsum hratio hfactor 1 = 0"
    by (simp add: simps_def)
  show "simps y h hsum hratio hfactor 2 = h 0 * (y 0 + y 1) / 2"
    by (simp add: simps_def)
  assume n: "4 \<le> n \<and> even n"
  then have m: "n smod 2 = 0" and d: "(n - 1) sdiv 2 = n div 2 - 1"
    using sdiv_smod_nonneg [of n] sdiv_smod_nonneg [of "n - 1"] by (auto elim!: evenE)
  with n show "simps y h hsum hratio hfactor n =
        (\<Sum>i = 0..<n div 2 - 1.
           (y (2 * i + 1) * (2 - hratio i) + y (2 * i + 1 + 1) * hfactor i
            + y (2 * i + 1 + 2) * (2 - 1 / hratio i)) * hsum i) / 6
        + h 0 * (y 0 + y 1) / 2"
    by (simp add: simps_def Let_def simpson_sum)
qed


theorem simps_cases_witness:
  "(4::int) \<le> 4 \<and> even (4::int) \<and>
   simps (\<lambda>i. real_of_int i) (\<lambda>i. 1) (\<lambda>i. 2) (\<lambda>i. 1) (\<lambda>i. 4) 1 = 0 \<and>
   simps (\<lambda>i. real_of_int i) (\<lambda>i. 1) (\<lambda>i. 2) (\<lambda>i. 1) (\<lambda>i. 4) 2 = 1 / 2 \<and>
   simps (\<lambda>i. real_of_int i) (\<lambda>i. 1) (\<lambda>i. 2) (\<lambda>i. 1) (\<lambda>i. 4) 4 = 9 / 2"
proof -
  have "{0..<(1::int)} = {0}" by auto
  with simps_cases [of "\<lambda>i. real_of_int i" "\<lambda>i. 1" "\<lambda>i. 2" "\<lambda>i. 1" "\<lambda>i. 4" 4]
  show ?thesis by simp
qed












end
